theory Spec2Isabelle
  imports Main "HOL-Library.Option_ord"
begin

section \<open>Data model\<close>

text \<open>
  A model of the task service (\<open>TaskService\<close>: \<open>createTask\<close>, \<open>updateTask\<close>,
  \<open>deleteTask\<close>) and of the sync service (\<open>SyncService\<close>: \<open>sync\<close>,
  \<open>processBatch\<close>, \<open>resolveConflict\<close>, \<open>updateSyncStatus\<close>,
  \<open>handleSyncError\<close>) of the offline-first task backend. Every \<open>async\<close> method
  becomes a function from the state before the call to its outcome and the state after
  it: \<open>Inr\<close> a returned value, \<open>Inl\<close> the message of a thrown error. The records
  carry the fields the services read and write (the type declarations of
  \<open>types/index.ts\<close> are not among the sources).
\<close>

text \<open>
  A JavaScript \<open>Date\<close>, or a value that \<open>new Date(...)\<close> parses: either a valid
  instant (milliseconds since the epoch) or an invalid date. \<open>getTime\<close> of an invalid
  date is NaN, written \<open>None\<close>; every comparison with NaN is false.
\<close>

datatype js_date = Date int | Invalid_Date

fun getTime :: "js_date \<Rightarrow> int option" where
  "getTime (Date ms) = Some ms"
| "getTime Invalid_Date = None"

fun number_ge :: "int option \<Rightarrow> int option \<Rightarrow> bool" where
  "number_ge (Some a) (Some b) = (b \<le> a)"
| "number_ge _ _ = False"

text \<open>\<open>sync_status\<close> is one of \<open>'pending' | 'synced' | 'error'\<close>.\<close>

datatype sync_status = Pending | Synced | Error

text \<open>The queued operation, \<open>'create' | 'update' | 'delete'\<close>.\<close>

datatype operation = Create | Update | Delete

text \<open>The \<open>Task\<close> entity; \<open>id_task\<close> is its field \<open>id\<close>.\<close>

record task =
  id_task :: string
  title :: string
  description :: string
  completed :: bool
  created_at :: js_date
  updated_at :: js_date
  is_deleted :: bool
  sync_status :: sync_status
  server_id :: "string option"
  last_synced_at :: "js_date option"

text \<open>
  \<open>Partial<Task>\<close>, with the fields the services read from one: an absent field is
  \<open>None\<close>.
\<close>

record partial_task =
  title_opt :: "string option"
  description_opt :: "string option"
  completed_opt :: "bool option"
  server_id_opt :: "string option"

definition as_partial :: "task \<Rightarrow> partial_task" where
  "as_partial t =
     \<lparr>title_opt = Some (title t), description_opt = Some (description t),
      completed_opt = Some (completed t), server_id_opt = server_id t\<rparr>"

text \<open>
  A row of \<open>sync_queue\<close> (\<open>SyncQueueItem\<close>); \<open>id_item\<close> is its column \<open>id\<close>,
  \<open>created_at_item\<close> its column \<open>created_at\<close>, \<open>data\<close> the serialized task.
\<close>

record sync_queue_item =
  id_item :: string
  task_id :: string
  operation :: operation
  data :: task
  retry_count :: nat
  last_error :: "string option"
  created_at_item :: js_date

text \<open>
  One entry of \<open>processed_items\<close> in a batch response. \<open>status\<close> is
  \<open>'success' | 'conflict' | 'error'\<close>; \<open>server_id_result\<close> and \<open>error_result\<close> are
  its fields \<open>server_id\<close> and \<open>error\<close>.
\<close>

datatype result_status = Success | Conflict | ItemError

record processed_item =
  client_id :: string
  status :: result_status
  resolved_data :: "partial_task option"
  server_id_result :: "string option"
  error_result :: "string option"

record batch_sync_response =
  processed_items :: "processed_item list"
  server_timestamp :: js_date

text \<open>
  An entry of \<open>SyncResult.errors\<close>: either a processed item that was not a success, or
  the \<open>{task_id, operation, error}\<close> object pushed for an item of a failed batch.
\<close>

datatype sync_error = Item_result processed_item | Batch_failure string operation string

record sync_result =
  success :: bool
  synced_items :: nat
  failed_items :: nat
  errors :: "sync_error list"

section \<open>The database and the remote peer\<close>

text \<open>
  The state the services act on: the two tables, in insertion order, and the list of
  batch payloads posted to the remote peer so far (the effect of \<open>axios.post\<close>).
\<close>

record state =
  tasks :: "task list"
  sync_queue :: "sync_queue_item list"
  posted :: "sync_queue_item list list"

text \<open>
  The SQL statements the services issue, with their bound parameters in the order of
  the source:
  \<^item> \<open>SELECT_task id\<close>: \<^verbatim>\<open>SELECT * FROM tasks WHERE id = ?\<close>;
  \<^item> \<open>SELECT_due limit\<close>:
    \<^verbatim>\<open>SELECT * FROM sync_queue WHERE retry_count < ? ORDER BY created_at ASC\<close>;
  \<^item> \<open>INSERT_task t\<close>: the insert of \<open>createTask\<close> into \<open>tasks\<close>, which lists the
    columns id, title, description, completed, created_at, updated_at, is_deleted and
    sync_status of \<open>t\<close>;
  \<^item> \<open>INSERT_queue_create id task_id operation data\<close>:
    \<^verbatim>\<open>INSERT INTO sync_queue (id, task_id, operation, data) VALUES (?, ?, ?, ?)\<close>;
  \<^item> \<open>UPDATE_task title description completed updated_at sync_status id\<close>:
    \<^verbatim>\<open>UPDATE tasks SET title = ?, description = ?, completed = ?, updated_at = ?, sync_status = ? WHERE id = ?\<close>;
  \<^item> \<open>INSERT_queue operation task_id data retry_count created_at\<close>:
    \<^verbatim>\<open>INSERT INTO sync_queue (operation, task_id, data, retry_count, created_at) VALUES (?, ?, ?, ?, ?)\<close>;
  \<^item> \<open>UPDATE_task_deleted updated_at id\<close>:
    \<^verbatim>\<open>UPDATE tasks SET is_deleted = 1, updated_at = ?, sync_status = 'pending' WHERE id = ?\<close>;
  \<^item> \<open>UPDATE_task_synced server_id last_synced_at id\<close>:
    \<^verbatim>\<open>UPDATE tasks SET sync_status = ?, server_id = ?, last_synced_at = ? WHERE id = ?\<close>
    with \<open>'synced'\<close> bound to the first parameter;
  \<^item> \<open>DELETE_queue task_id\<close>: \<^verbatim>\<open>DELETE FROM sync_queue WHERE task_id = ?\<close>;
  \<^item> \<open>UPDATE_task_error id\<close>: \<^verbatim>\<open>UPDATE tasks SET sync_status = 'error' WHERE id = ?\<close>;
  \<^item> \<open>UPDATE_queue_retry retry_count last_error id\<close>:
    \<^verbatim>\<open>UPDATE sync_queue SET retry_count = ?, last_error = ? WHERE id = ?\<close>.
\<close>

datatype stmt =
    SELECT_task string
  | SELECT_due "int option"
  | INSERT_task task
  | INSERT_queue_create string string operation task
  | UPDATE_task string string bool js_date sync_status string
  | INSERT_queue operation string task nat js_date
  | UPDATE_task_deleted js_date string
  | UPDATE_task_synced "string option" js_date string
  | DELETE_queue string
  | UPDATE_task_error string
  | UPDATE_queue_retry nat string string

text \<open>
  What lies outside the services:
  \<^item> \<open>SYNC_BATCH_SIZE\<close> and \<open>SYNC_RETRY_ATTEMPTS\<close>: the two configuration values as
    \<open>parseInt\<close> returns them (\<open>None\<close> is NaN);
  \<^item> \<open>now\<close>: the clock, \<open>new Date()\<close>;
  \<^item> \<open>db_fails\<close>: whether the storage engine refuses a statement in a state, and with
    which message (\<open>None\<close>: the statement is carried out);
  \<^item> \<open>post_batch\<close>: the answer of the batch endpoint to the \<open>n\<close>-th post, by its
    payload; \<open>Inl\<close> is a post that throws (timeout, network error, non-success
    status, or a body without \<open>processed_items\<close>), with the message of the error;
  \<^item> \<open>get_task\<close>: the answer of \<^verbatim>\<open>GET /tasks/:serverId\<close>, \<open>Inl\<close> when it throws;
  \<^item> \<open>next_item_id\<close>: the id the \<open>sync_queue\<close> table gives a row inserted without
    one.
\<close>

record env =
  SYNC_BATCH_SIZE :: "int option"
  SYNC_RETRY_ATTEMPTS :: "int option"
  now :: js_date
  db_fails :: "stmt \<Rightarrow> state \<Rightarrow> string option"
  post_batch :: "nat \<Rightarrow> sync_queue_item list \<Rightarrow> string + batch_sync_response"
  get_task :: "string \<Rightarrow> string + task"
  next_item_id :: "state \<Rightarrow> string"

text \<open>\<open>retry_count < ?\<close> with the bound limit; a NaN limit is bound as NULL and selects nothing.\<close>

fun below_limit :: "nat \<Rightarrow> int option \<Rightarrow> bool" where
  "below_limit n (Some l) = (int n < l)"
| "below_limit n None = False"

text \<open>
  Modelled from the spec: the schema of the two tables (\<open>db/database.ts\<close> is not among
  the sources). A task row has the columns of \<open>Task\<close>, a queue row those of
  \<open>MutationQueueItem\<close>: \<open>retry_count\<close> starts at 0, \<open>last_error\<close> is optional,
  \<open>created_at\<close> is the time of the insertion, and a column an \<open>INSERT\<close> does not list
  is NULL. \<open>UPDATE\<close> and \<open>DELETE\<close> act on every row their \<open>WHERE\<close> selects.
\<close>

fun run_stmt :: "env \<Rightarrow> stmt \<Rightarrow> state \<Rightarrow> state" where
  "run_stmt e (SELECT_task i) s = s"
| "run_stmt e (SELECT_due l) s = s"
| "run_stmt e (INSERT_task t) s =
     s\<lparr>tasks := tasks s @ [t\<lparr>server_id := None, last_synced_at := None\<rparr>]\<rparr>"
| "run_stmt e (INSERT_queue_create qid tid oper t) s =
     s\<lparr>sync_queue := sync_queue s @
       [\<lparr>id_item = qid, task_id = tid, operation = oper, data = t, retry_count = 0,
         last_error = None, created_at_item = now e\<rparr>]\<rparr>"
| "run_stmt e (UPDATE_task ti de co up st i) s =
     s\<lparr>tasks := map (\<lambda>t. if id_task t = i
        then t\<lparr>title := ti, description := de, completed := co, updated_at := up,
               sync_status := st\<rparr>
        else t) (tasks s)\<rparr>"
| "run_stmt e (INSERT_queue oper tid t rc ts) s =
     s\<lparr>sync_queue := sync_queue s @
       [\<lparr>id_item = next_item_id e s, task_id = tid, operation = oper, data = t,
         retry_count = rc, last_error = None, created_at_item = ts\<rparr>]\<rparr>"
| "run_stmt e (UPDATE_task_deleted ts i) s =
     s\<lparr>tasks := map (\<lambda>t. if id_task t = i
        then t\<lparr>is_deleted := True, updated_at := ts, sync_status := Pending\<rparr>
        else t) (tasks s)\<rparr>"
| "run_stmt e (UPDATE_task_synced sid ts i) s =
     s\<lparr>tasks := map (\<lambda>t. if id_task t = i
        then t\<lparr>sync_status := Synced, server_id := sid, last_synced_at := Some ts\<rparr>
        else t) (tasks s)\<rparr>"
| "run_stmt e (DELETE_queue tid) s =
     s\<lparr>sync_queue := filter (\<lambda>q. task_id q \<noteq> tid) (sync_queue s)\<rparr>"
| "run_stmt e (UPDATE_task_error i) s =
     s\<lparr>tasks := map (\<lambda>t. if id_task t = i then t\<lparr>sync_status := Error\<rparr> else t) (tasks s)\<rparr>"
| "run_stmt e (UPDATE_queue_retry rc msg qid) s =
     s\<lparr>sync_queue := map (\<lambda>q. if id_item q = qid
        then q\<lparr>retry_count := rc, last_error := Some msg\<rparr>
        else q) (sync_queue s)\<rparr>"

text \<open>\<open>db.run\<close>: the statement is refused (the promise rejects) or takes effect.\<close>

definition db_run :: "env \<Rightarrow> stmt \<Rightarrow> state \<Rightarrow> (string + unit) \<times> state" where
  "db_run e q s =
     (case db_fails e q s of
        Some msg \<Rightarrow> (Inl msg, s)
      | None \<Rightarrow> (Inr (), run_stmt e q s))"

text \<open>The row \<open>SELECT * FROM tasks WHERE id = ?\<close> finds: the first such row, or undefined.\<close>

definition task_row :: "state \<Rightarrow> string \<Rightarrow> task option" where
  "task_row s i = find (\<lambda>t. id_task t = i) (tasks s)"

text \<open>\<open>db.get\<close> of that query.\<close>

definition db_get_task :: "env \<Rightarrow> string \<Rightarrow> state \<Rightarrow> string + task option" where
  "db_get_task e i s =
     (case db_fails e (SELECT_task i) s of
        Some msg \<Rightarrow> Inl msg
      | None \<Rightarrow> Inr (task_row s i))"

text \<open>
  \<open>db.all\<close> of \<open>SELECT * FROM sync_queue WHERE retry_count < ? ORDER BY created_at ASC\<close>;
  rows of equal \<open>created_at\<close> keep their insertion order.
\<close>

definition db_all_due :: "env \<Rightarrow> int option \<Rightarrow> state \<Rightarrow> string + sync_queue_item list" where
  "db_all_due e l s =
     (case db_fails e (SELECT_due l) s of
        Some msg \<Rightarrow> Inl msg
      | None \<Rightarrow>
          Inr (sort_key (\<lambda>q. getTime (created_at_item q))
                 (filter (\<lambda>q. below_limit (retry_count q) l) (sync_queue s))))"

section \<open>TaskService\<close>

text \<open>The task object \<open>createTask\<close> builds from the task data, the new id and the clock.\<close>

definition new_task :: "env \<Rightarrow> partial_task \<Rightarrow> string \<Rightarrow> task" where
  "new_task e taskData i =
     \<lparr>id_task = i,
      title = (case title_opt taskData of Some x \<Rightarrow> x | None \<Rightarrow> ''untitled task''),
      description = (case description_opt taskData of Some x \<Rightarrow> x | None \<Rightarrow> []),
      completed = (case completed_opt taskData of Some b \<Rightarrow> b | None \<Rightarrow> False),
      created_at = now e, updated_at = now e, is_deleted = False,
      sync_status = Pending, server_id = None, last_synced_at = Some (now e)\<rparr>"

text \<open>
  \<open>createTask\<close>; \<open>i\<close> and \<open>qid\<close> are the two results of \<open>uuidv4()\<close>. Any error of
  the two inserts is caught and rethrown as \<open>Error('Not implemented')\<close>.
\<close>

definition createTask ::
  "env \<Rightarrow> partial_task \<Rightarrow> string \<Rightarrow> string \<Rightarrow> state \<Rightarrow> (string + task) \<times> state" where
  "createTask e taskData i qid s =
     (let t = new_task e taskData i
      in case db_run e (INSERT_task t) s of
           (Inl err, s1) \<Rightarrow> (Inl ''Not implemented'', s1)
         | (Inr u, s1) \<Rightarrow>
             (case db_run e (INSERT_queue_create qid (id_task t) Create t) s1 of
                (Inl err, s2) \<Rightarrow> (Inl ''Not implemented'', s2)
              | (Inr u', s2) \<Rightarrow> (Inr t, s2)))"

text \<open>The object \<open>updatedTask\<close> that \<open>updateTask\<close> merges from the row and the updates.\<close>

definition merged_task :: "env \<Rightarrow> task \<Rightarrow> partial_task \<Rightarrow> task" where
  "merged_task e existingTask updates =
     existingTask
       \<lparr>title := (case title_opt updates of Some x \<Rightarrow> x | None \<Rightarrow> title existingTask),
        description := (case description_opt updates of Some x \<Rightarrow> x
                        | None \<Rightarrow> description existingTask),
        completed := (case completed_opt updates of Some b \<Rightarrow> b
                      | None \<Rightarrow> completed existingTask),
        updated_at := now e,
        sync_status := Pending\<rparr>"

text \<open>
  \<open>updateTask\<close>: \<open>null\<close> (\<open>Inr None\<close>) when the row is missing or soft-deleted; any
  error is rethrown as \<open>Error('Failed to update task')\<close>.
\<close>

definition updateTask ::
  "env \<Rightarrow> string \<Rightarrow> partial_task \<Rightarrow> state \<Rightarrow> (string + task option) \<times> state" where
  "updateTask e i updates s =
     (case db_get_task e i s of
        Inl err \<Rightarrow> (Inl ''Failed to update task'', s)
      | Inr None \<Rightarrow> (Inr None, s)
      | Inr (Some existingTask) \<Rightarrow>
          if is_deleted existingTask then (Inr None, s)
          else
            (let updatedTask = merged_task e existingTask updates
             in case db_run e (UPDATE_task (title updatedTask) (description updatedTask)
                        (completed updatedTask) (updated_at updatedTask)
                        (sync_status updatedTask) i) s of
                  (Inl err, s1) \<Rightarrow> (Inl ''Failed to update task'', s1)
                | (Inr u, s1) \<Rightarrow>
                    (case db_run e (INSERT_queue Update i updatedTask 0 (now e)) s1 of
                       (Inl err, s2) \<Rightarrow> (Inl ''Failed to update task'', s2)
                     | (Inr u', s2) \<Rightarrow> (Inr (Some updatedTask), s2))))"

text \<open>
  \<open>deleteTask\<close>: \<open>false\<close> when the row is missing or already soft-deleted; the queue
  entry carries the row as it was read. Any error is rethrown as
  \<open>Error('Failed to delete task')\<close>.
\<close>

definition deleteTask :: "env \<Rightarrow> string \<Rightarrow> state \<Rightarrow> (string + bool) \<times> state" where
  "deleteTask e i s =
     (case db_get_task e i s of
        Inl err \<Rightarrow> (Inl ''Failed to delete task'', s)
      | Inr None \<Rightarrow> (Inr False, s)
      | Inr (Some existingTask) \<Rightarrow>
          if is_deleted existingTask then (Inr False, s)
          else
            (case db_run e (UPDATE_task_deleted (now e) i) s of
               (Inl err, s1) \<Rightarrow> (Inl ''Failed to delete task'', s1)
             | (Inr u, s1) \<Rightarrow>
                 (case db_run e (INSERT_queue Delete i existingTask 0 (now e)) s1 of
                    (Inl err, s2) \<Rightarrow> (Inl ''Failed to delete task'', s2)
                  | (Inr u', s2) \<Rightarrow> (Inr True, s2))))"

section \<open>SyncService\<close>

text \<open>
  \<open>resolveConflict\<close>: loads the local row and the remote task, compares the two
  \<open>updated_at\<close> times, and returns one of them; when the server wins it first writes
  the server's version through \<open>updateTask\<close>. Reading \<open>updated_at\<close> of a missing
  local row throws a TypeError.
\<close>

definition resolveConflict ::
  "env \<Rightarrow> string \<Rightarrow> string \<Rightarrow> state \<Rightarrow> (string + task) \<times> state" where
  "resolveConflict e clientId serverId s =
     (case db_get_task e clientId s of
        Inl err \<Rightarrow> (Inl err, s)
      | Inr localRow \<Rightarrow>
          (case get_task e serverId of
             Inl err \<Rightarrow> (Inl err, s)
           | Inr serverTask \<Rightarrow>
               (case localRow of
                  None \<Rightarrow> (Inl ''TypeError'', s)
                | Some localTask \<Rightarrow>
                    (let localTime = getTime (updated_at localTask);
                         serverTime = getTime (updated_at serverTask)
                     in if number_ge localTime serverTime then (Inr localTask, s)
                        else (case updateTask e (id_task localTask) (as_partial serverTask) s of
                                (Inl err, s1) \<Rightarrow> (Inl err, s1)
                              | (Inr u, s1) \<Rightarrow> (Inr serverTask, s1))))))"

text \<open>
  The test \<open>result.status === 'conflict' && result.server_id && result.client_id\<close>:
  an absent or empty string is falsy.
\<close>

definition is_conflict :: "processed_item \<Rightarrow> bool" where
  "is_conflict r =
     (status r = Conflict \<and>
      (case server_id_result r of Some sid \<Rightarrow> sid \<noteq> [] | None \<Rightarrow> False) \<and>
      client_id r \<noteq> [])"

text \<open>
  The conflict loop of \<open>processBatch\<close>: each conflict is resolved, the winner written
  through \<open>updateTask\<close>, and the result turned into a success carrying the winner.
\<close>

fun resolve_conflicts ::
  "env \<Rightarrow> processed_item list \<Rightarrow> state \<Rightarrow> (string + processed_item list) \<times> state" where
  "resolve_conflicts e [] s = (Inr [], s)"
| "resolve_conflicts e (r # rs) s =
     (if is_conflict r then
        (case resolveConflict e (client_id r)
                (case server_id_result r of Some sid \<Rightarrow> sid | None \<Rightarrow> []) s of
           (Inl err, s1) \<Rightarrow> (Inl err, s1)
         | (Inr resolvedTask, s1) \<Rightarrow>
             (case updateTask e (id_task resolvedTask) (as_partial resolvedTask) s1 of
                (Inl err, s2) \<Rightarrow> (Inl err, s2)
              | (Inr u, s2) \<Rightarrow>
                  (case resolve_conflicts e rs s2 of
                     (Inl err, s3) \<Rightarrow> (Inl err, s3)
                   | (Inr rs', s3) \<Rightarrow>
                       (Inr (r\<lparr>resolved_data := Some (as_partial resolvedTask),
                                status := Success\<rparr> # rs'), s3))))
      else
        (case resolve_conflicts e rs s of
           (Inl err, s1) \<Rightarrow> (Inl err, s1)
         | (Inr rs', s1) \<Rightarrow> (Inr (r # rs'), s1)))"

text \<open>
  \<open>processBatch\<close>: the payload carries every column of an item but \<open>last_error\<close>; it
  is posted once, as the next call to the batch endpoint, and a response is passed
  through the conflict loop.
\<close>

definition payload :: "sync_queue_item list \<Rightarrow> sync_queue_item list" where
  "payload items = map (\<lambda>i. i\<lparr>last_error := None\<rparr>) items"

definition processBatch ::
  "env \<Rightarrow> sync_queue_item list \<Rightarrow> state \<Rightarrow> (string + batch_sync_response) \<times> state" where
  "processBatch e items s =
     (let s0 = s\<lparr>posted := posted s @ [payload items]\<rparr>
      in case post_batch e (length (posted s)) (payload items) of
           Inl err \<Rightarrow> (Inl err, s0)
         | Inr batchResponse \<Rightarrow>
             (case resolve_conflicts e (processed_items batchResponse) s0 of
                (Inl err, s1) \<Rightarrow> (Inl err, s1)
              | (Inr rs, s1) \<Rightarrow> (Inr (batchResponse\<lparr>processed_items := rs\<rparr>), s1)))"

text \<open>\<open>updateSyncStatus\<close>, called with \<open>'synced'\<close> or \<open>'error'\<close>.\<close>

definition updateSyncStatus ::
  "env \<Rightarrow> string \<Rightarrow> sync_status \<Rightarrow> partial_task option \<Rightarrow> state \<Rightarrow> (string + unit) \<times> state" where
  "updateSyncStatus e taskId st serverData s =
     (if st = Synced then
        (case db_run e (UPDATE_task_synced
                 (case serverData of Some d \<Rightarrow> server_id_opt d | None \<Rightarrow> None)
                 (now e) taskId) s of
           (Inl err, s1) \<Rightarrow> (Inl err, s1)
         | (Inr u, s1) \<Rightarrow> db_run e (DELETE_queue taskId) s1)
      else db_run e (UPDATE_task_error taskId) s)"

text \<open>\<open>handleSyncError\<close>; \<open>msg\<close> is \<open>error.message\<close>.\<close>

definition handleSyncError ::
  "env \<Rightarrow> sync_queue_item \<Rightarrow> string \<Rightarrow> state \<Rightarrow> (string + unit) \<times> state" where
  "handleSyncError e item msg s =
     (let newCount = retry_count item + 1
      in if number_ge (Some (int newCount)) (SYNC_RETRY_ATTEMPTS e) then
           (case db_run e (UPDATE_task_error (task_id item)) s of
              (Inl err, s1) \<Rightarrow> (Inl err, s1)
            | (Inr u, s1) \<Rightarrow> db_run e (UPDATE_queue_retry newCount msg (id_item item)) s1)
         else db_run e (UPDATE_queue_retry newCount msg (id_item item)) s)"

text \<open>
  The partition loop of \<open>sync\<close>: \<open>items.slice(i, i + batchSize)\<close> for
  \<open>i = 0, batchSize, ...\<close> while \<open>i < items.length\<close>.
\<close>

function batches_from :: "nat \<Rightarrow> nat \<Rightarrow> 'a list \<Rightarrow> 'a list list" where
  "batches_from b i items =
     (if 0 < b \<and> i < length items
      then take b (drop i items) # batches_from b (i + b) items
      else [])"
  by pat_completeness auto
termination
  by (relation "measure (\<lambda>(b, i, items). length items - i)") auto

declare batches_from.simps [simp del]

text \<open>
  The loop with the batch size \<open>parseInt\<close> gave. With NaN the first step makes \<open>i\<close>
  NaN and the loop ends after one empty slice; with a size of zero or less \<open>i\<close> never
  reaches the length and the loop does not end (\<open>None\<close>).
\<close>

definition make_batches :: "int option \<Rightarrow> 'a list \<Rightarrow> 'a list list option" where
  "make_batches batchSize items =
     (case batchSize of
        None \<Rightarrow> Some (if items = [] then [] else [[]])
      | Some b \<Rightarrow>
          if b \<le> 0 \<and> items \<noteq> [] then None
          else Some (batches_from (nat b) 0 items))"

text \<open>
  The loop over \<open>response.processed_items\<close> inside the \<open>try\<close>; the counters are
  \<open>(synced, failed, errors)\<close>. \<open>Inl\<close> is an error thrown by \<open>updateSyncStatus\<close>,
  with the counters as they stand.
\<close>

fun apply_results ::
  "env \<Rightarrow> processed_item list \<Rightarrow> nat \<times> nat \<times> sync_error list \<Rightarrow> state \<Rightarrow>
     (string + unit) \<times> (nat \<times> nat \<times> sync_error list) \<times> state" where
  "apply_results e [] acc s = (Inr (), acc, s)"
| "apply_results e (r # rs) (synced, failed, errs) s =
     (if status r = Success then
        (case updateSyncStatus e (client_id r) Synced (resolved_data r) s of
           (Inl err, s1) \<Rightarrow> (Inl err, (synced, failed, errs), s1)
         | (Inr u, s1) \<Rightarrow> apply_results e rs (synced + 1, failed, errs) s1)
      else apply_results e rs (synced, failed + 1, errs @ [Item_result r]) s)"

text \<open>The body of the \<open>try\<close>.\<close>

definition try_batch ::
  "env \<Rightarrow> sync_queue_item list \<Rightarrow> nat \<times> nat \<times> sync_error list \<Rightarrow> state \<Rightarrow>
     (string + unit) \<times> (nat \<times> nat \<times> sync_error list) \<times> state" where
  "try_batch e batch acc s =
     (case processBatch e batch s of
        (Inl err, s1) \<Rightarrow> (Inl err, acc, s1)
      | (Inr response, s1) \<Rightarrow> apply_results e (processed_items response) acc s1)"

text \<open>
  The loop of the \<open>catch\<close>: every item of the batch goes through \<open>handleSyncError\<close>
  and gets an entry in \<open>errors\<close>. An error thrown here leaves \<open>sync\<close>.
\<close>

fun fail_items ::
  "env \<Rightarrow> sync_queue_item list \<Rightarrow> string \<Rightarrow> sync_error list \<Rightarrow> state \<Rightarrow>
     (string + sync_error list) \<times> state" where
  "fail_items e [] msg errs s = (Inr errs, s)"
| "fail_items e (item # items) msg errs s =
     (case handleSyncError e item msg s of
        (Inl err, s1) \<Rightarrow> (Inl err, s1)
      | (Inr u, s1) \<Rightarrow>
          fail_items e items msg (errs @ [Batch_failure (task_id item) (operation item) msg]) s1)"

text \<open>The loop over the batches.\<close>

fun sync_batches ::
  "env \<Rightarrow> sync_queue_item list list \<Rightarrow> nat \<times> nat \<times> sync_error list \<Rightarrow> state \<Rightarrow>
     (string + nat \<times> nat \<times> sync_error list) \<times> state" where
  "sync_batches e [] acc s = (Inr acc, s)"
| "sync_batches e (batch # batches) acc s =
     (case try_batch e batch acc s of
        (Inr u, acc1, s1) \<Rightarrow> sync_batches e batches acc1 s1
      | (Inl err, (synced, failed, errs), s1) \<Rightarrow>
          (case fail_items e batch err errs s1 of
             (Inl err', s2) \<Rightarrow> (Inl err', s2)
           | (Inr errs', s2) \<Rightarrow>
               sync_batches e batches (synced, failed + length batch, errs') s2))"

text \<open>
  \<open>sync\<close>. \<open>None\<close>: the call never returns (the partition loop does not end);
  \<open>Some (Inl err, s)\<close>: the promise rejects.
\<close>

definition sync :: "env \<Rightarrow> state \<Rightarrow> ((string + sync_result) \<times> state) option" where
  "sync e s =
     (case db_all_due e (SYNC_RETRY_ATTEMPTS e) s of
        Inl err \<Rightarrow> Some (Inl err, s)
      | Inr items \<Rightarrow>
          if items = [] then
            Some (Inr \<lparr>success = True, synced_items = 0, failed_items = 0, errors = []\<rparr>, s)
          else
            (case make_batches (SYNC_BATCH_SIZE e) items of
               None \<Rightarrow> None
             | Some batches \<Rightarrow>
                 Some (case sync_batches e batches (0, 0, []) s of
                         (Inl err, s1) \<Rightarrow> (Inl err, s1)
                       | (Inr (synced, failed, errs), s1) \<Rightarrow>
                           (Inr \<lparr>success = (failed = 0), synced_items = synced,
                                 failed_items = failed, errors = errs\<rparr>, s1))))"

section \<open>Runs of several calls\<close>

text \<open>
  \<open>n\<close> calls of \<open>sync\<close>, one after the other, each on the state the one before left;
  \<open>None\<close> when one of them does not return.
\<close>

fun sync_cycles :: "env \<Rightarrow> nat \<Rightarrow> state \<Rightarrow> state option" where
  "sync_cycles e 0 s = Some s"
| "sync_cycles e (Suc n) s =
     (case sync e s of
        None \<Rightarrow> None
      | Some (r, s1) \<Rightarrow> sync_cycles e n s1)"

text \<open>
  A sequence of \<open>createTask\<close> calls, each with its task data and its two fresh ids;
  it stops at the first call that throws.
\<close>

fun createTasks ::
  "env \<Rightarrow> (partial_task \<times> string \<times> string) list \<Rightarrow> state \<Rightarrow> (string + task list) \<times> state" where
  "createTasks e [] s = (Inr [], s)"
| "createTasks e ((taskData, i, qid) # rest) s =
     (case createTask e taskData i qid s of
        (Inl err, s1) \<Rightarrow> (Inl err, s1)
      | (Inr t, s1) \<Rightarrow>
          (case createTasks e rest s1 of
             (Inl err, s2) \<Rightarrow> (Inl err, s2)
           | (Inr ts, s2) \<Rightarrow> (Inr (t # ts), s2)))"

section \<open>Conditions on the surroundings\<close>

text \<open>The storage engine refuses no statement.\<close>

definition storage_ok :: "env \<Rightarrow> bool" where
  "storage_ok e = (\<forall>q s. db_fails e q s = None)"

text \<open>The statements that insert into \<open>sync_queue\<close>.\<close>

fun is_queue_insert :: "stmt \<Rightarrow> bool" where
  "is_queue_insert (INSERT_queue_create qid tid oper t) = True"
| "is_queue_insert (INSERT_queue oper tid t rc ts) = True"
| "is_queue_insert q = False"

text \<open>
  The storage engine refuses every insert into \<open>sync_queue\<close>, with the message
  \<open>msg\<close>, and accepts every other statement.
\<close>

definition queue_insert_refused :: "env \<Rightarrow> string \<Rightarrow> bool" where
  "queue_insert_refused e msg =
     (\<forall>q s. db_fails e q s = (if is_queue_insert q then Some msg else None))"

section \<open>Predicates on a state\<close>

text \<open>Every row of the task table with the id \<open>tid\<close> has \<open>sync_status\<close> error.\<close>

definition task_in_error :: "state \<Rightarrow> string \<Rightarrow> bool" where
  "task_in_error s tid = (\<forall>t\<in>set (tasks s). id_task t = tid \<longrightarrow> sync_status t = Error)"

text \<open>
  The queue has a row with the id \<open>a\<close>, and every such row belongs to the task
  \<open>tid\<close>, has the retry count \<open>r\<close> and, when \<open>h\<close> holds, a \<open>last_error\<close>.
\<close>

definition queue_rows :: "state \<Rightarrow> string \<Rightarrow> string \<Rightarrow> nat \<Rightarrow> bool \<Rightarrow> bool" where
  "queue_rows s a tid r h =
     (a \<in> set (map id_item (sync_queue s)) \<and>
      (\<forall>q\<in>set (sync_queue s). id_item q = a \<longrightarrow>
         task_id q = tid \<and> retry_count q = r \<and> (h \<longrightarrow> last_error q \<noteq> None)))"

text \<open>Every row of the task table with an id in \<open>X\<close> has \<open>sync_status\<close> synced.\<close>

definition tasks_synced :: "state \<Rightarrow> string set \<Rightarrow> bool" where
  "tasks_synced s X = (\<forall>t\<in>set (tasks s). id_task t \<in> X \<longrightarrow> sync_status t = Synced)"

text \<open>
  The batch endpoint accepts everything: every post gets a response, and the response
  carries, for each item posted and in the same order, a success result whose
  \<open>client_id\<close> is the item's task id.
\<close>

definition accepting :: "env \<Rightarrow> bool" where
  "accepting e =
     (\<forall>n p. \<exists>resp. post_batch e n p = Inr resp \<and>
        map client_id (processed_items resp) = map task_id p \<and>
        (\<forall>r\<in>set (processed_items resp). status r = Success))"

text \<open>
  The rows \<open>createTask\<close> inserts for a request (task data, task id, item id): the queue
  row and the task row.
\<close>

definition queued_create :: "env \<Rightarrow> partial_task \<times> string \<times> string \<Rightarrow> sync_queue_item" where
  "queued_create e req =
     (case req of (taskData, i, qid) \<Rightarrow>
        \<lparr>id_item = qid, task_id = i, operation = Create, data = new_task e taskData i,
         retry_count = 0, last_error = None, created_at_item = now e\<rparr>)"

definition stored_task :: "env \<Rightarrow> partial_task \<times> string \<times> string \<Rightarrow> task" where
  "stored_task e req =
     (case req of (taskData, i, qid) \<Rightarrow>
        (new_task e taskData i)\<lparr>server_id := None, last_synced_at := None\<rparr>)"

section \<open>Concrete scenarios\<close>

definition ex_local :: task where
  "ex_local =
     \<lparr>id_task = ''t1'', title = ''A'', description = ''local'', completed = False,
      created_at = Date 100, updated_at = Date 200, is_deleted = False,
      sync_status = Pending, server_id = None, last_synced_at = None\<rparr>"

definition ex_remote :: task where
  "ex_remote =
     \<lparr>id_task = ''t1'', title = ''B'', description = ''remote'', completed = True,
      created_at = Date 100, updated_at = Date 200, is_deleted = True,
      sync_status = Synced, server_id = Some ''s1'', last_synced_at = Some (Date 150)\<rparr>"

definition ex_item :: sync_queue_item where
  "ex_item =
     \<lparr>id_item = ''q1'', task_id = ''t1'', operation = Update, data = ex_local,
      retry_count = 0, last_error = None, created_at_item = Date 200\<rparr>"

definition ex_state :: state where
  "ex_state = \<lparr>tasks = [ex_local], sync_queue = [ex_item], posted = []\<rparr>"

text \<open>
  Surroundings in which the storage accepts everything, the batch endpoint is
  unreachable and the remote peer holds \<open>ex_remote\<close> under \<open>s1\<close>.
\<close>

definition ex_env :: env where
  "ex_env =
     \<lparr>SYNC_BATCH_SIZE = Some 2, SYNC_RETRY_ATTEMPTS = Some 2, now = Date 300,
      db_fails = (\<lambda>q s. None),
      post_batch = (\<lambda>n p. Inl ''timeout of 8000ms exceeded''),
      get_task = (\<lambda>sid. if sid = ''s1'' then Inr ex_remote else Inl ''Not Found''),
      next_item_id = (\<lambda>s. replicate (Suc (length (sync_queue s))) CHR ''q'')\<rparr>"

text \<open>The remote peer's version edited later, and one edited earlier, than \<open>ex_local\<close>.\<close>

definition ex_remote_newer :: task where
  "ex_remote_newer = ex_remote\<lparr>updated_at := Date 250\<rparr>"

definition ex_remote_older :: task where
  "ex_remote_older = ex_remote\<lparr>updated_at := Date 150\<rparr>"

definition ex_env_newer :: env where
  "ex_env_newer = ex_env\<lparr>get_task := (\<lambda>sid. Inr ex_remote_newer)\<rparr>"

definition ex_env_older :: env where
  "ex_env_older = ex_env\<lparr>get_task := (\<lambda>sid. Inr ex_remote_older)\<rparr>"

text \<open>The same surroundings with a storage that refuses the inserts into the queue.\<close>

definition ex_env_queue_refused :: env where
  "ex_env_queue_refused =
     ex_env\<lparr>db_fails := (\<lambda>q s. if is_queue_insert q then Some ''SQLITE_FULL'' else None)\<rparr>"

definition ex_task_data :: partial_task where
  "ex_task_data =
     \<lparr>title_opt = Some ''C'', description_opt = None, completed_opt = None,
      server_id_opt = None\<rparr>"

text \<open>The state in which the only task is soft-deleted.\<close>

definition ex_state_deleted :: state where
  "ex_state_deleted = ex_state\<lparr>tasks := [ex_local\<lparr>is_deleted := True\<rparr>]\<rparr>"

text \<open>Two more tasks with a queue item each; the third item has failed once before.\<close>

definition ex_task2 :: task where
  "ex_task2 = ex_local\<lparr>id_task := ''t2'', title := ''second''\<rparr>"

definition ex_task3 :: task where
  "ex_task3 = ex_local\<lparr>id_task := ''t3'', title := ''third''\<rparr>"

definition ex_item2 :: sync_queue_item where
  "ex_item2 =
     \<lparr>id_item = ''q2'', task_id = ''t2'', operation = Create, data = ex_task2,
      retry_count = 0, last_error = None, created_at_item = Date 210\<rparr>"

definition ex_item3 :: sync_queue_item where
  "ex_item3 =
     \<lparr>id_item = ''q3'', task_id = ''t3'', operation = Create, data = ex_task3,
      retry_count = 1, last_error = Some ''timeout of 8000ms exceeded'',
      created_at_item = Date 220\<rparr>"

definition ex_state3 :: state where
  "ex_state3 =
     \<lparr>tasks = [ex_local, ex_task2, ex_task3], sync_queue = [ex_item, ex_item2, ex_item3],
      posted = []\<rparr>"

text \<open>A remote peer that accepts every item of every batch.\<close>

definition accepted :: "sync_queue_item \<Rightarrow> processed_item" where
  "accepted i =
     \<lparr>client_id = task_id i, status = Success, resolved_data = Some (as_partial (data i)),
      server_id_result = None, error_result = None\<rparr>"

definition ex_env_accepting :: env where
  "ex_env_accepting =
     ex_env\<lparr>post_batch := (\<lambda>n p. Inr \<lparr>processed_items = map accepted p,
                                       server_timestamp = Date 400\<rparr>)\<rparr>"

text \<open>A remote peer that answers every batch with one item-level error for \<open>t1\<close>.\<close>

definition ex_rejection :: processed_item where
  "ex_rejection =
     \<lparr>client_id = ''t1'', status = ItemError, resolved_data = None,
      server_id_result = None, error_result = Some ''Unknown operation''\<rparr>"

definition ex_env_rejecting :: env where
  "ex_env_rejecting =
     ex_env\<lparr>post_batch := (\<lambda>n p. Inr \<lparr>processed_items = [ex_rejection],
                                       server_timestamp = Date 400\<rparr>)\<rparr>"

text \<open>A second pending item of task \<open>t1\<close>, and a queue that holds it after two others.\<close>

definition ex_item_later :: sync_queue_item where
  "ex_item_later =
     \<lparr>id_item = ''q4'', task_id = ''t1'', operation = Delete, data = ex_local,
      retry_count = 0, last_error = None, created_at_item = Date 260\<rparr>"

definition ex_state_two :: state where
  "ex_state_two =
     \<lparr>tasks = [ex_local, ex_task2], sync_queue = [ex_item, ex_item2, ex_item_later],
      posted = []\<rparr>"

text \<open>The empty database, and three requests to create a task.\<close>

definition ex_state_empty :: state where
  "ex_state_empty = \<lparr>tasks = [], sync_queue = [], posted = []\<rparr>"

definition ex_requests :: "(partial_task \<times> string \<times> string) list" where
  "ex_requests =
     [(ex_task_data, ''t1'', ''q1''), (ex_task_data, ''t2'', ''q2''),
      (ex_task_data, ''t3'', ''q3'')]"

section \<open>Auxiliary facts\<close>

lemma storage_ok_db_run: "storage_ok e \<Longrightarrow> db_run e q s = (Inr (), run_stmt e q s)"
  by (simp add: storage_ok_def db_run_def)

lemma storage_ok_db_get_task: "storage_ok e \<Longrightarrow> db_get_task e i s = Inr (task_row s i)"
  by (simp add: storage_ok_def db_get_task_def)

lemma task_row_id: "task_row s i = Some t \<Longrightarrow> id_task t = i"
  by (auto simp: task_row_def find_Some_iff)

lemma storage_ok_ex_env: "storage_ok ex_env"
  by (simp add: storage_ok_def ex_env_def)

section \<open>Conflict resolution\<close>

text \<open>
  C1, as the code has it. When the two \<open>updated_at\<close> times are valid and equal,
  \<open>resolveConflict\<close> returns the local task and leaves the state as it was, whatever
  the queue holds for the task and whatever the remote version says: the comparison is
  \<open>localTime >= serverTime\<close>, and no pending operation enters it.
\<close>

theorem resolveConflict_tie_keeps_local:
  assumes "db_fails e (SELECT_task clientId) s = None"
      and "task_row s clientId = Some localTask"
      and "get_task e serverId = Inr serverTask"
      and "getTime (updated_at localTask) = Some t"
      and "getTime (updated_at serverTask) = Some t"
  shows "resolveConflict e clientId serverId s = (Inr localTask, s)"
  using assms by (simp add: resolveConflict_def db_get_task_def)

theorem resolveConflict_tie_keeps_local_witness:
  "resolveConflict ex_env ''t1'' ''s1'' ex_state = (Inr ex_local, ex_state)"
  using resolveConflict_tie_keeps_local
          [of ex_env "''t1''" ex_state ex_local "''s1''" ex_remote 200]
  by (simp add: task_row_def ex_env_def ex_state_def ex_local_def ex_remote_def)

text \<open>
  C1 as stated fails: \<open>ex_local\<close> has a pending update in the queue (\<open>ex_item\<close>), the
  remote peer has deleted the task (\<open>ex_remote\<close>), both carry the same \<open>updated_at\<close>,
  and the winner is the local task, not the deleted one.
\<close>

theorem resolveConflict_tie_delete_loses:
  "updated_at ex_local = updated_at ex_remote \<and>
   task_id ex_item = id_task ex_local \<and> operation ex_item = Update \<and>
   is_deleted ex_remote \<and> \<not> is_deleted ex_local \<and>
   fst (resolveConflict ex_env ''t1'' ''s1'' ex_state) = Inr ex_local \<and>
   ex_local \<noteq> ex_remote"
  by (simp add: resolveConflict_def db_get_task_def task_row_def ex_env_def ex_state_def
      ex_local_def ex_remote_def ex_item_def)

text \<open>
  C2. With valid times, a local task edited strictly later is returned as it is, with
  the state untouched; a remote task edited strictly later is returned, provided the
  storage accepts the write \<open>resolveConflict\<close> makes in that branch.
\<close>

theorem resolveConflict_later_wins:
  assumes "db_fails e (SELECT_task clientId) s = None"
      and "task_row s clientId = Some localTask"
      and "get_task e serverId = Inr serverTask"
      and "getTime (updated_at localTask) = Some lt"
      and "getTime (updated_at serverTask) = Some st"
  shows "(st < lt \<longrightarrow> resolveConflict e clientId serverId s = (Inr localTask, s)) \<and>
         (lt < st \<and> storage_ok e \<longrightarrow>
            fst (resolveConflict e clientId serverId s) = Inr serverTask)"
  using assms task_row_id [OF assms(2)]
  by (auto simp: resolveConflict_def updateTask_def storage_ok_db_run storage_ok_db_get_task
      db_get_task_def Let_def)

theorem resolveConflict_later_wins_witness:
  "resolveConflict ex_env_older ''t1'' ''s1'' ex_state = (Inr ex_local, ex_state) \<and>
   fst (resolveConflict ex_env_newer ''t1'' ''s1'' ex_state) = Inr ex_remote_newer"
  using resolveConflict_later_wins
          [of ex_env_older "''t1''" ex_state ex_local "''s1''" ex_remote_older 200 150]
        resolveConflict_later_wins
          [of ex_env_newer "''t1''" ex_state ex_local "''s1''" ex_remote_newer 200 250]
  by (simp add: task_row_def storage_ok_def ex_env_older_def ex_env_newer_def
      ex_remote_older_def ex_remote_newer_def ex_env_def ex_state_def ex_local_def
      ex_remote_def)

text \<open>
  C3, as the code has it. With a working storage, a local row and a remote task, the
  winner depends on the two tasks alone (the local one when
  \<open>localTime >= serverTime\<close>, else the remote one), so the same pair gives the same
  winner again. When the local task wins nothing is written. When the remote task wins
  and the local row is not soft-deleted, \<open>resolveConflict\<close> itself writes: through
  \<open>updateTask\<close> the local row takes the remote title, description and completed flag,
  \<open>updated_at\<close> becomes the current time and \<open>sync_status\<close> pending, and an update
  item with that task is appended to the queue.
\<close>

theorem resolveConflict_winner_and_writes:
  assumes "storage_ok e"
      and "task_row s clientId = Some localTask"
      and "get_task e serverId = Inr serverTask"
  shows "resolveConflict e clientId serverId s =
     (if number_ge (getTime (updated_at localTask)) (getTime (updated_at serverTask))
      then (Inr localTask, s)
      else (Inr serverTask,
            if is_deleted localTask then s
            else s\<lparr>tasks := map (\<lambda>t. if id_task t = clientId
                      then t\<lparr>title := title serverTask, description := description serverTask,
                             completed := completed serverTask, updated_at := now e,
                             sync_status := Pending\<rparr>
                      else t) (tasks s),
                   sync_queue := sync_queue s @
                     [\<lparr>id_item = next_item_id e
                          (s\<lparr>tasks := map (\<lambda>t. if id_task t = clientId
                             then t\<lparr>title := title serverTask,
                                    description := description serverTask,
                                    completed := completed serverTask, updated_at := now e,
                                    sync_status := Pending\<rparr>
                             else t) (tasks s)\<rparr>),
                       task_id = clientId, operation = Update,
                       data = localTask\<lparr>title := title serverTask,
                                description := description serverTask,
                                completed := completed serverTask, updated_at := now e,
                                sync_status := Pending\<rparr>,
                       retry_count = 0, last_error = None, created_at_item = now e\<rparr>]\<rparr>))"
  using assms task_row_id [OF assms(2)]
  by (simp add: resolveConflict_def updateTask_def storage_ok_db_run storage_ok_db_get_task
      merged_task_def as_partial_def Let_def cong: if_cong)

theorem resolveConflict_winner_and_writes_witness:
  "resolveConflict ex_env_newer ''t1'' ''s1'' ex_state =
     (Inr ex_remote_newer,
      \<lparr>tasks = [ex_local\<lparr>title := ''B'', description := ''remote'', completed := True,
                 updated_at := Date 300\<rparr>],
       sync_queue = [ex_item,
         \<lparr>id_item = ''qq'', task_id = ''t1'', operation = Update,
          data = ex_local\<lparr>title := ''B'', description := ''remote'', completed := True,
                   updated_at := Date 300\<rparr>,
          retry_count = 0, last_error = None, created_at_item = Date 300\<rparr>],
       posted = []\<rparr>)"
  using resolveConflict_winner_and_writes
          [of ex_env_newer ex_state "''t1''" ex_local "''s1''" ex_remote_newer]
  by (simp add: task_row_def storage_ok_def ex_env_newer_def ex_remote_newer_def
      ex_env_def ex_state_def ex_local_def ex_remote_def ex_item_def)

text \<open>
  C3 as stated fails: resolving \<open>ex_local\<close> against the remote version edited later
  changes both tables.
\<close>

theorem resolveConflict_writes_when_remote_wins:
  "sync_queue (snd (resolveConflict ex_env_newer ''t1'' ''s1'' ex_state)) \<noteq> sync_queue ex_state \<and>
   tasks (snd (resolveConflict ex_env_newer ''t1'' ''s1'' ex_state)) \<noteq> tasks ex_state"
  by (simp add: resolveConflict_def updateTask_def db_run_def db_get_task_def task_row_def
      merged_task_def as_partial_def Let_def ex_env_newer_def ex_remote_newer_def
      ex_env_def ex_state_def ex_local_def ex_remote_def ex_item_def)

section \<open>TaskService: writes and their failures\<close>

lemma refused_db_run:
  "queue_insert_refused e msg \<Longrightarrow>
   db_run e q s = (if is_queue_insert q then (Inl msg, s) else (Inr (), run_stmt e q s))"
  by (simp add: queue_insert_refused_def db_run_def)

lemma refused_db_get_task:
  "queue_insert_refused e msg \<Longrightarrow> db_get_task e i s = Inr (task_row s i)"
  by (simp add: queue_insert_refused_def db_get_task_def)

text \<open>
  C6, as the code has it. When the storage refuses the insert into the queue (and
  nothing else), each of \<open>createTask\<close>, \<open>updateTask\<close> and \<open>deleteTask\<close> throws its
  error to the caller, and the write to the task table made just before stays: the
  new row is in the table, the updated row keeps the merged fields, the deleted row
  stays soft-deleted; the queue is as it was.
\<close>

theorem queue_insert_failure_keeps_task_write:
  assumes "queue_insert_refused e msg"
  shows "createTask e taskData i qid s =
           (Inl ''Not implemented'',
            s\<lparr>tasks := tasks s @
                 [(new_task e taskData i)\<lparr>server_id := None, last_synced_at := None\<rparr>]\<rparr>) \<and>
         (task_row s j = Some t \<and> \<not> is_deleted t \<longrightarrow>
            updateTask e j updates s =
              (Inl ''Failed to update task'',
               s\<lparr>tasks := map (\<lambda>r. if id_task r = j
                    then r\<lparr>title := title (merged_task e t updates),
                           description := description (merged_task e t updates),
                           completed := completed (merged_task e t updates),
                           updated_at := now e, sync_status := Pending\<rparr>
                    else r) (tasks s)\<rparr>) \<and>
            deleteTask e j s =
              (Inl ''Failed to delete task'',
               s\<lparr>tasks := map (\<lambda>r. if id_task r = j
                    then r\<lparr>is_deleted := True, updated_at := now e, sync_status := Pending\<rparr>
                    else r) (tasks s)\<rparr>))"
proof -
  have c: "createTask e taskData i qid s =
           (Inl ''Not implemented'',
            s\<lparr>tasks := tasks s @
                 [(new_task e taskData i)\<lparr>server_id := None, last_synced_at := None\<rparr>]\<rparr>)"
    by (simp add: createTask_def Let_def refused_db_run [OF assms])
  have u: "updateTask e j updates s =
              (Inl ''Failed to update task'',
               s\<lparr>tasks := map (\<lambda>r. if id_task r = j
                    then r\<lparr>title := title (merged_task e t updates),
                           description := description (merged_task e t updates),
                           completed := completed (merged_task e t updates),
                           updated_at := now e, sync_status := Pending\<rparr>
                    else r) (tasks s)\<rparr>)"
    if "task_row s j = Some t" "\<not> is_deleted t"
    using that
    by (simp add: updateTask_def Let_def refused_db_run [OF assms]
        refused_db_get_task [OF assms] merged_task_def cong: if_cong)
  have d: "deleteTask e j s =
              (Inl ''Failed to delete task'',
               s\<lparr>tasks := map (\<lambda>r. if id_task r = j
                    then r\<lparr>is_deleted := True, updated_at := now e, sync_status := Pending\<rparr>
                    else r) (tasks s)\<rparr>)"
    if "task_row s j = Some t" "\<not> is_deleted t"
    using that
    by (simp add: deleteTask_def refused_db_run [OF assms] refused_db_get_task [OF assms])
  show ?thesis using c u d by blast
qed

theorem queue_insert_failure_keeps_task_write_witness:
  "createTask ex_env_queue_refused ex_task_data ''t2'' ''q2'' ex_state =
     (Inl ''Not implemented'',
      ex_state\<lparr>tasks := [ex_local,
         \<lparr>id_task = ''t2'', title = ''C'', description = [], completed = False,
          created_at = Date 300, updated_at = Date 300, is_deleted = False,
          sync_status = Pending, server_id = None, last_synced_at = None\<rparr>]\<rparr>) \<and>
   updateTask ex_env_queue_refused ''t1'' ex_task_data ex_state =
     (Inl ''Failed to update task'',
      ex_state\<lparr>tasks := [ex_local\<lparr>title := ''C'', updated_at := Date 300\<rparr>]\<rparr>) \<and>
   deleteTask ex_env_queue_refused ''t1'' ex_state =
     (Inl ''Failed to delete task'',
      ex_state\<lparr>tasks := [ex_local\<lparr>is_deleted := True, updated_at := Date 300\<rparr>]\<rparr>)"
  using queue_insert_failure_keeps_task_write
          [of ex_env_queue_refused "''SQLITE_FULL''" ex_task_data "''t2''" "''q2''" ex_state
              "''t1''" ex_local ex_task_data]
  by (simp add: queue_insert_refused_def task_row_def new_task_def merged_task_def
      ex_env_queue_refused_def ex_task_data_def ex_env_def ex_state_def ex_local_def)

text \<open>
  C6 as stated fails: with the queue insert refused, \<open>createTask\<close> throws, yet the
  task table has gained the row \<open>t2\<close> and the queue holds no item for it.
\<close>

theorem createTask_failure_leaves_task_row:
  "fst (createTask ex_env_queue_refused ex_task_data ''t2'' ''q2'' ex_state)
     = Inl ''Not implemented'' \<and>
   map id_task (tasks (snd (createTask ex_env_queue_refused ex_task_data ''t2'' ''q2'' ex_state)))
     = [''t1'', ''t2''] \<and>
   map id_task (tasks ex_state) = [''t1''] \<and>
   sync_queue (snd (createTask ex_env_queue_refused ex_task_data ''t2'' ''q2'' ex_state))
     = sync_queue ex_state"
  by (simp add: createTask_def db_run_def new_task_def Let_def ex_env_queue_refused_def
      ex_task_data_def ex_env_def ex_state_def ex_local_def)

text \<open>
  C10. For an id with no row in the task table, or whose row is soft-deleted,
  \<open>updateTask\<close> returns \<open>null\<close> and \<open>deleteTask\<close> returns \<open>false\<close>, and the state
  (both tables) is as it was; the read of the row is assumed not to fail.
\<close>

theorem missing_or_deleted_task_writes_nothing:
  assumes "db_fails e (SELECT_task i) s = None"
      and "i \<notin> id_task ` set (tasks s) \<or> (\<exists>t. task_row s i = Some t \<and> is_deleted t)"
  shows "updateTask e i updates s = (Inr None, s) \<and> deleteTask e i s = (Inr False, s)"
proof -
  have "task_row s i = None \<or> (\<exists>t. task_row s i = Some t \<and> is_deleted t)"
    using assms(2) by (auto simp: task_row_def find_None_iff)
  then show ?thesis
    using assms(1) by (auto simp: updateTask_def deleteTask_def db_get_task_def)
qed

theorem missing_or_deleted_task_writes_nothing_witness:
  "updateTask ex_env ''t9'' ex_task_data ex_state = (Inr None, ex_state) \<and>
   deleteTask ex_env ''t9'' ex_state = (Inr False, ex_state) \<and>
   updateTask ex_env ''t1'' ex_task_data ex_state_deleted = (Inr None, ex_state_deleted) \<and>
   deleteTask ex_env ''t1'' ex_state_deleted = (Inr False, ex_state_deleted)"
  using missing_or_deleted_task_writes_nothing [of ex_env "''t9''" ex_state ex_task_data]
        missing_or_deleted_task_writes_nothing [of ex_env "''t1''" ex_state_deleted ex_task_data]
  by (simp add: task_row_def ex_state_deleted_def ex_env_def ex_state_def ex_local_def)

section \<open>SyncService: the batches and the counters\<close>

lemma batches_from_step:
  "0 < b \<Longrightarrow> i < length items \<Longrightarrow>
   batches_from b i items = take b (drop i items) # batches_from b (i + b) items"
  by (subst batches_from.simps) simp

lemma batches_from_stop: "\<not> i < length items \<Longrightarrow> batches_from b i items = []"
  by (subst batches_from.simps) simp

lemma concat_batches_from: "0 < b \<Longrightarrow> concat (batches_from b i xs) = drop i xs"
proof (induction b i xs rule: batches_from.induct)
  case (1 b i items)
  show ?case
  proof (cases "i < length items")
    case True
    have "concat (batches_from b i items) = take b (drop i items) @ drop (i + b) items"
      using 1 True by (simp add: batches_from_step)
    also have "\<dots> = take b (drop i items) @ drop b (drop i items)"
      by (simp add: add.commute)
    also have "\<dots> = drop i items"
      by (rule append_take_drop_id)
    finally show ?thesis .
  next
    case False
    then show ?thesis by (simp add: batches_from_stop)
  qed
qed

lemma ceil_step:
  fixes b m :: nat
  assumes "0 < b"
  shows "(m + b + b - 1) div b = Suc ((m + b - 1) div b)"
proof -
  have e: "m + b + b - 1 = (m + b - 1) + b" using assms by simp
  have "((m + b - 1) + b) div b = (m + b - 1) div b + 1"
    by (rule div_add_self2) (use assms in simp)
  then show ?thesis by (simp only: e Suc_eq_plus1)
qed

lemma length_batches_from:
  "0 < b \<Longrightarrow> length (batches_from b i xs) = (length xs - i + b - 1) div b"
proof (induction b i xs rule: batches_from.induct)
  case (1 b i items)
  show ?case
  proof (cases "i < length items")
    case True
    have "length (batches_from b i items) = Suc ((length items - (i + b) + b - 1) div b)"
      using 1 True by (simp add: batches_from_step)
    also have "\<dots> = (length items - i + b - 1) div b"
    proof (cases "i + b \<le> length items")
      case True
      define m where "m = length items - (i + b)"
      have l: "length items - i = m + b" using True by (simp add: m_def)
      have "length items - (i + b) + b - 1 = m + b - 1" by (simp add: m_def)
      moreover have "length items - i + b - 1 = m + b + b - 1" by (simp only: l)
      ultimately show ?thesis
        using ceil_step [OF \<open>0 < b\<close>, of m] by (simp only:)
    next
      case False
      define k where "k = length items - Suc i"
      have k: "k < b" using False True by (simp add: k_def)
      have a: "length items - (i + b) + b - 1 = b - 1" using False by simp
      have e: "length items - i + b - 1 = k + b" using True by (simp add: k_def)
      have "(k + b) div b = Suc 0" using k \<open>0 < b\<close> by (simp add: div_add_self2)
      then have "(length items - i + b - 1) div b = Suc 0" by (simp only: e)
      moreover have "(b - 1) div b = 0" using \<open>0 < b\<close> by simp
      ultimately show ?thesis by (simp only: a)
    qed
    finally show ?thesis .
  next
    case False
    then show ?thesis using 1 by (simp add: batches_from_stop)
  qed
qed

lemma batches_from_sizes:
  "0 < b \<Longrightarrow> (\<forall>c \<in> set (batches_from b i xs). length c \<le> b \<and> c \<noteq> []) \<and>
     (\<forall>c \<in> set (butlast (batches_from b i xs)). length c = b)"
proof (induction b i xs rule: batches_from.induct)
  case (1 b i items)
  show ?case
  proof (cases "i < length items")
    case True
    have eq: "batches_from b i items = take b (drop i items) # batches_from b (i + b) items"
      using True 1(2) by (simp add: batches_from_step)
    have ih: "(\<forall>c \<in> set (batches_from b (i + b) items). length c \<le> b \<and> c \<noteq> []) \<and>
     (\<forall>c \<in> set (butlast (batches_from b (i + b) items)). length c = b)"
      using 1 True by simp
    have hd: "length (take b (drop i items)) \<le> b \<and> take b (drop i items) \<noteq> []"
      using True 1(2) by simp
    have full: "length (take b (drop i items)) = b" if "batches_from b (i + b) items \<noteq> []"
    proof -
      have "i + b < length items"
        using that by (cases "i + b < length items") (simp_all add: batches_from_stop)
      then show ?thesis by simp
    qed
    show ?thesis
      unfolding eq using ih hd full by auto
  next
    case False
    then show ?thesis by (simp add: batches_from_stop)
  qed
qed

lemma posted_run_stmt [simp]: "posted (run_stmt e q s) = posted s"
  by (cases q) simp_all

lemma updateTask_ok:
  assumes "storage_ok e"
  shows "\<exists>r s'. updateTask e i u s = (Inr r, s') \<and> posted s' = posted s"
  using assms by (simp add: updateTask_def Let_def storage_ok_db_run storage_ok_db_get_task split: option.splits)

lemma resolveConflict_posted:
  assumes "storage_ok e"
  shows "posted (snd (resolveConflict e c sid s)) = posted s"
proof -
  obtain r s' where "updateTask e (id_task (the (task_row s c))) (as_partial (projr (get_task e sid))) s = (Inr r, s')"
    "posted s' = posted s"
    using updateTask_ok [OF assms] by blast
  then show ?thesis
    using assms
    by (auto simp: resolveConflict_def Let_def storage_ok_db_run storage_ok_db_get_task split: sum.splits option.splits prod.splits)
qed

lemma resolve_conflicts_props:
  assumes "storage_ok e"
  shows "posted (snd (resolve_conflicts e rs s)) = posted s \<and>
         (\<forall>rs'. fst (resolve_conflicts e rs s) = Inr rs' \<longrightarrow> length rs' = length rs)"
proof (induction rs arbitrary: s)
  case Nil
  then show ?case by simp
next
  case (Cons r rs)
  show ?case
  proof (cases "is_conflict r")
    case False
    obtain y s1 where rest: "resolve_conflicts e rs s = (y, s1)"
      by (cases "resolve_conflicts e rs s")
    have "posted s1 = posted s" and "\<And>rs'. y = Inr rs' \<Longrightarrow> length rs' = length rs"
      using Cons.IH [of s] rest by simp_all
    then show ?thesis
      using False rest by (cases y) simp_all
  next
    case True
    let ?sid = "case server_id_result r of Some sid \<Rightarrow> sid | None \<Rightarrow> []"
    obtain x s1 where rc: "resolveConflict e (client_id r) ?sid s = (x, s1)"
      by (cases "resolveConflict e (client_id r) ?sid s")
    have p1: "posted s1 = posted s"
      using resolveConflict_posted [OF assms, of "client_id r" ?sid s] rc by simp
    show ?thesis
    proof (cases x)
      case (Inl err)
      then show ?thesis using True rc p1 by simp
    next
      case (Inr t)
      obtain u s2 where ut: "updateTask e (id_task t) (as_partial t) s1 = (Inr u, s2)"
        and p2: "posted s2 = posted s1"
        using updateTask_ok [OF assms] by blast
      obtain y s3 where rest: "resolve_conflicts e rs s2 = (y, s3)"
        by (cases "resolve_conflicts e rs s2")
      have "posted s3 = posted s2" and "\<And>rs'. y = Inr rs' \<Longrightarrow> length rs' = length rs"
        using Cons.IH [of s2] rest by simp_all
      then show ?thesis
        using True rc Inr ut p1 p2 rest by (cases y) simp_all
    qed
  qed
qed

lemma processBatch_props:
  assumes "storage_ok e"
  shows "posted (snd (processBatch e b s)) = posted s @ [payload b] \<and>
         (\<forall>resp. fst (processBatch e b s) = Inr resp \<longrightarrow>
            (\<exists>resp0. post_batch e (length (posted s)) (payload b) = Inr resp0 \<and>
               length (processed_items resp) = length (processed_items resp0)))"
proof (cases "post_batch e (length (posted s)) (payload b)")
  case (Inl err)
  then show ?thesis by (simp add: processBatch_def Let_def)
next
  case (Inr resp0)
  let ?s0 = "s\<lparr>posted := posted s @ [payload b]\<rparr>"
  obtain y s1 where rest: "resolve_conflicts e (processed_items resp0) ?s0 = (y, s1)"
    by (cases "resolve_conflicts e (processed_items resp0) ?s0")
  have "posted s1 = posted ?s0"
    and "\<And>rs'. y = Inr rs' \<Longrightarrow> length rs' = length (processed_items resp0)"
    using resolve_conflicts_props [OF assms, of "processed_items resp0" ?s0] rest by simp_all
  then show ?thesis
    using Inr rest by (cases y) (simp_all add: processBatch_def Let_def)
qed

lemma updateSyncStatus_ok:
  assumes "storage_ok e"
  shows "updateSyncStatus e t Synced d s =
           (Inr (), run_stmt e (DELETE_queue t)
              (run_stmt e (UPDATE_task_synced (case d of Some x \<Rightarrow> server_id_opt x | None \<Rightarrow> None)
                 (now e) t) s))"
  using assms by (simp add: updateSyncStatus_def storage_ok_db_run storage_ok_db_get_task)

lemma apply_results_props:
  assumes "storage_ok e"
  shows "\<exists>sy' fa' er' s'. apply_results e rs (sy, fa, er) s = (Inr (), (sy', fa', er'), s') \<and>
           sy' + fa' = sy + fa + length rs \<and> sy \<le> sy' \<and> fa \<le> fa' \<and> posted s' = posted s"
proof (induction rs arbitrary: sy fa er s)
  case Nil
  then show ?case by simp
next
  case (Cons r rs)
  show ?case
  proof (cases "status r = Success")
    case True
    let ?s1 = "run_stmt e (DELETE_queue (client_id r))
              (run_stmt e (UPDATE_task_synced (case resolved_data r of Some x \<Rightarrow> server_id_opt x | None \<Rightarrow> None)
                 (now e) (client_id r)) s)"
    from Cons.IH [of "sy + 1" fa er ?s1] True show ?thesis
      by (auto simp: updateSyncStatus_ok [OF assms])
  next
    case False
    from Cons.IH [of sy "fa + 1" "er @ [Item_result r]" s] False show ?thesis
      by auto
  qed
qed

lemma handleSyncError_ok:
  assumes "storage_ok e"
  shows "\<exists>s'. handleSyncError e i msg s = (Inr (), s') \<and> posted s' = posted s"
  using assms by (simp add: handleSyncError_def Let_def storage_ok_db_run storage_ok_db_get_task)

lemma fail_items_ok:
  assumes "storage_ok e"
  shows "\<exists>s'. fail_items e items msg er s =
            (Inr (er @ map (\<lambda>i. Batch_failure (task_id i) (operation i) msg) items), s') \<and>
          posted s' = posted s"
proof (induction items arbitrary: er s)
  case Nil
  then show ?case by simp
next
  case (Cons i items)
  obtain s1 where h: "handleSyncError e i msg s = (Inr (), s1)" and p: "posted s1 = posted s"
    using handleSyncError_ok [OF assms] by blast
  from Cons.IH [of "er @ [Batch_failure (task_id i) (operation i) msg]" s1] h p
  show ?case by auto
qed


lemma length_payload [simp]: "length (payload b) = length b"
  by (simp add: payload_def)

lemma try_batch_props:
  assumes "storage_ok e"
  shows "\<exists>x sy' fa' er' s'. try_batch e b (sy, fa, er) s = (x, (sy', fa', er'), s') \<and>
           posted s' = posted s @ [payload b] \<and> sy \<le> sy' \<and> fa \<le> fa' \<and>
           (case x of
              Inl err \<Rightarrow> sy' = sy \<and> fa' = fa \<and> er' = er
            | Inr u \<Rightarrow> \<exists>resp0. post_batch e (length (posted s)) (payload b) = Inr resp0 \<and>
                        sy' + fa' = sy + fa + length (processed_items resp0))"
proof -
  obtain y s1 where pb: "processBatch e b s = (y, s1)"
    by (cases "processBatch e b s")
  have p1: "posted s1 = posted s @ [payload b]"
    using processBatch_props [OF assms, of b s] pb by simp
  show ?thesis
  proof (cases y)
    case (Inl err)
    then show ?thesis using pb p1 by (simp add: try_batch_def)
  next
    case (Inr resp)
    obtain resp0 where r0: "post_batch e (length (posted s)) (payload b) = Inr resp0"
      and len: "length (processed_items resp) = length (processed_items resp0)"
      using processBatch_props [OF assms, of b s] pb Inr by auto
    obtain sy' fa' er' s' where
      ar: "apply_results e (processed_items resp) (sy, fa, er) s1 = (Inr (), (sy', fa', er'), s')"
      and cnt: "sy' + fa' = sy + fa + length (processed_items resp)"
      and mono: "sy \<le> sy'" "fa \<le> fa'" and p2: "posted s' = posted s1"
      using apply_results_props [OF assms, of "processed_items resp" sy fa er s1] by blast
    show ?thesis
      using pb Inr ar cnt mono p1 p2 r0 len by (simp add: try_batch_def)
  qed
qed

lemma sync_batches_props:
  assumes "storage_ok e"
  shows "\<exists>sy' fa' er' s'. sync_batches e bs (sy, fa, er) s = (Inr (sy', fa', er'), s') \<and>
           posted s' = posted s @ map payload bs \<and> sy \<le> sy' \<and> fa \<le> fa'"
proof (induction bs arbitrary: sy fa er s)
  case Nil
  then show ?case by simp
next
  case (Cons b bs)
  obtain x sy1 fa1 er1 s1 where
    tb: "try_batch e b (sy, fa, er) s = (x, (sy1, fa1, er1), s1)"
    and p1: "posted s1 = posted s @ [payload b]" and m1: "sy \<le> sy1" "fa \<le> fa1"
    using try_batch_props [OF assms, of b sy fa er s] by blast
  show ?case
  proof (cases x)
    case (Inr u)
    obtain sy' fa' er' s' where
      sb: "sync_batches e bs (sy1, fa1, er1) s1 = (Inr (sy', fa', er'), s')"
      and p2: "posted s' = posted s1 @ map payload bs" and m2: "sy1 \<le> sy'" "fa1 \<le> fa'"
      using Cons.IH [of sy1 fa1 er1 s1] by blast
    have "sync_batches e (b # bs) (sy, fa, er) s = (Inr (sy', fa', er'), s')"
      by (simp add: tb Inr sb)
    moreover have "posted s' = posted s @ map payload (b # bs)"
      by (simp add: p1 p2)
    moreover have "sy \<le> sy'" "fa \<le> fa'"
      using m1 m2 by simp_all
    ultimately show ?thesis by blast
  next
    case (Inl err)
    obtain s2 where
      fi: "fail_items e b err er1 s1 =
            (Inr (er1 @ map (\<lambda>i. Batch_failure (task_id i) (operation i) err) b), s2)"
      and p2: "posted s2 = posted s1"
      using fail_items_ok [OF assms] by blast
    obtain sy' fa' er' s' where
      sb: "sync_batches e bs (sy1, fa1 + length b,
              er1 @ map (\<lambda>i. Batch_failure (task_id i) (operation i) err) b) s2
            = (Inr (sy', fa', er'), s')"
      and p3: "posted s' = posted s2 @ map payload bs" and m2: "sy1 \<le> sy'" "fa1 + length b \<le> fa'"
      using Cons.IH [of sy1 "fa1 + length b" _ s2] by blast
    have "sync_batches e (b # bs) (sy, fa, er) s = (Inr (sy', fa', er'), s')"
      by (simp add: tb Inl fi sb)
    moreover have "posted s' = posted s @ map payload (b # bs)"
      by (simp add: p1 p2 p3)
    moreover have "sy \<le> sy'" "fa \<le> fa'"
      using m1 m2 by simp_all
    ultimately show ?thesis by blast
  qed
qed

lemma sync_batches_count:
  assumes "storage_ok e"
      and "\<forall>n p resp. post_batch e n p = Inr resp \<longrightarrow> length (processed_items resp) = length p"
      and "sync_batches e bs (sy, fa, er) s = (Inr (sy', fa', er'), s')"
  shows "sy' + fa' = sy + fa + length (concat bs)"
  using assms(3)
proof (induction bs arbitrary: sy fa er s)
  case Nil
  then show ?case by simp
next
  case (Cons b bs)
  obtain x sy1 fa1 er1 s1 where
    tb: "try_batch e b (sy, fa, er) s = (x, (sy1, fa1, er1), s1)"
    and cx: "case x of
              Inl err \<Rightarrow> sy1 = sy \<and> fa1 = fa \<and> er1 = er
            | Inr u \<Rightarrow> \<exists>resp0. post_batch e (length (posted s)) (payload b) = Inr resp0 \<and>
                        sy1 + fa1 = sy + fa + length (processed_items resp0)"
    using try_batch_props [OF assms(1), of b sy fa er s] by blast
  show ?case
  proof (cases x)
    case (Inr u)
    then obtain resp0 where "post_batch e (length (posted s)) (payload b) = Inr resp0"
      and c1: "sy1 + fa1 = sy + fa + length (processed_items resp0)"
      using cx by auto
    then have "length (processed_items resp0) = length b"
      using assms(2) by fastforce
    then have c1': "sy1 + fa1 = sy + fa + length b" using c1 by simp
    have "sync_batches e bs (sy1, fa1, er1) s1 = (Inr (sy', fa', er'), s')"
      using Cons.prems by (simp add: tb Inr)
    from Cons.IH [OF this] c1' show ?thesis by simp
  next
    case (Inl err)
    then have same: "sy1 = sy" "fa1 = fa" using cx by simp_all
    obtain s2 where
      fi: "fail_items e b err er1 s1 =
            (Inr (er1 @ map (\<lambda>i. Batch_failure (task_id i) (operation i) err) b), s2)"
      using fail_items_ok [OF assms(1)] by blast
    have "sync_batches e bs (sy1, fa1 + length b,
              er1 @ map (\<lambda>i. Batch_failure (task_id i) (operation i) err) b) s2
            = (Inr (sy', fa', er'), s')"
      using Cons.prems by (simp add: tb Inl fi)
    from Cons.IH [OF this] same show ?thesis by simp
  qed
qed

section \<open>SyncService: a whole run\<close>

lemma storage_ok_db_all_due:
  "storage_ok e \<Longrightarrow> db_all_due e l s =
     Inr (sort_key (\<lambda>q. getTime (created_at_item q))
            (filter (\<lambda>q. below_limit (retry_count q) l) (sync_queue s)))"
  by (simp add: storage_ok_def db_all_due_def)

text \<open>
  C9. With a working storage, a batch size \<open>B > 0\<close> and the \<open>Q\<close> due items
  \<open>items\<close>, \<open>sync\<close> returns a result; the payloads it posts are those of the
  consecutive slices \<open>bs\<close> of \<open>items\<close>, one call each: \<open>ceil(Q/B)\<close> calls, none of
  more than \<open>B\<close> items, all but the last of exactly \<open>B\<close>. \<open>success\<close> holds exactly
  when \<open>failed_items\<close> is zero; when every response carries one result per item
  posted, \<open>synced_items + failed_items = Q\<close>; with no due item nothing is posted and
  the result is the success result of zero counts.
\<close>

theorem sync_partitions_and_counts:
  assumes "storage_ok e" and "SYNC_BATCH_SIZE e = Some B" and "0 < B"
      and "db_all_due e (SYNC_RETRY_ATTEMPTS e) s = Inr items"
  shows "\<exists>r s' bs. sync e s = Some (Inr r, s') \<and>
           posted s' = posted s @ map payload bs \<and> concat bs = items \<and>
           length bs = (length items + nat B - 1) div nat B \<and>
           (\<forall>b\<in>set bs. length b \<le> nat B) \<and> (\<forall>b\<in>set (butlast bs). length b = nat B) \<and>
           success r = (failed_items r = 0) \<and>
           ((\<forall>n p resp. post_batch e n p = Inr resp \<longrightarrow>
                length (processed_items resp) = length p) \<longrightarrow>
              synced_items r + failed_items r = length items) \<and>
           (items = [] \<longrightarrow>
              r = \<lparr>success = True, synced_items = 0, failed_items = 0, errors = []\<rparr> \<and> s' = s)"
proof (cases "items = []")
  case True
  let ?r = "\<lparr>success = True, synced_items = 0, failed_items = 0, errors = []\<rparr>"
  have "sync e s = Some (Inr ?r, s)"
    using assms(4) True by (simp add: sync_def)
  moreover have "posted s = posted s @ map payload []" by simp
  moreover have "(nat B - Suc 0) div nat B = 0" using assms(3) by simp
  ultimately show ?thesis
    using True by (intro exI [of _ ?r] exI [of _ s] exI [of _ "[]"]) simp
next
  case False
  define bs where "bs = batches_from (nat B) 0 items"
  have pos: "0 < nat B" using assms(3) by simp
  have mk: "make_batches (SYNC_BATCH_SIZE e) items = Some bs"
    using assms(2,3) by (simp add: make_batches_def bs_def)
  obtain sy fa er s' where
    sb: "sync_batches e bs (0, 0, []) s = (Inr (sy, fa, er), s')"
    and p: "posted s' = posted s @ map payload bs"
    using sync_batches_props [OF assms(1), of bs 0 0 "[]" s] by blast
  let ?r = "\<lparr>success = (fa = 0), synced_items = sy, failed_items = fa, errors = er\<rparr>"
  have run: "sync e s = Some (Inr ?r, s')"
    using assms(4) False mk sb by (simp add: sync_def)
  have cc: "concat bs = items"
    using concat_batches_from [OF pos, of 0 items] by (simp add: bs_def)
  have len: "length bs = (length items + nat B - 1) div nat B"
    using length_batches_from [OF pos, of 0 items] by (simp add: bs_def)
  have sz: "(\<forall>b\<in>set bs. length b \<le> nat B) \<and> (\<forall>b\<in>set (butlast bs). length b = nat B)"
    using batches_from_sizes [OF pos, of 0 items] by (simp add: bs_def)
  have cnt: "sy + fa = length items"
    if "\<forall>n p resp. post_batch e n p = Inr resp \<longrightarrow> length (processed_items resp) = length p"
    using sync_batches_count [OF assms(1) that sb] cc by simp
  show ?thesis
    using run p cc len sz cnt False
    by (intro exI [of _ ?r] exI [of _ s'] exI [of _ bs]) simp
qed

lemma ex_state3_due: "db_all_due ex_env_accepting (SYNC_RETRY_ATTEMPTS ex_env_accepting) ex_state3
               = Inr [ex_item, ex_item2, ex_item3]"
    by (simp add: db_all_due_def ex_env_accepting_def ex_env_def ex_state3_def ex_item_def
        ex_item2_def ex_item3_def)

theorem sync_partitions_and_counts_witness:
  "\<exists>r s'. sync ex_env_accepting ex_state3 = Some (Inr r, s') \<and>
      length (posted s') = 2 \<and> synced_items r + failed_items r = 3 \<and>
      success r = (failed_items r = 0)"
proof -
  have ok: "storage_ok ex_env_accepting"
    by (simp add: storage_ok_def ex_env_accepting_def ex_env_def)
  have b: "SYNC_BATCH_SIZE ex_env_accepting = Some 2"
    by (simp add: ex_env_accepting_def ex_env_def)
  have due: "db_all_due ex_env_accepting (SYNC_RETRY_ATTEMPTS ex_env_accepting) ex_state3
               = Inr [ex_item, ex_item2, ex_item3]"
    by (rule ex_state3_due)
  have resp: "\<forall>n p resp. post_batch ex_env_accepting n p = Inr resp \<longrightarrow>
                length (processed_items resp) = length p"
    by (auto simp: ex_env_accepting_def ex_env_def)
  have pos: "(0::int) < 2" by simp
  from sync_partitions_and_counts [OF ok b pos due] obtain r s' bs where
    H: "sync ex_env_accepting ex_state3 = Some (Inr r, s') \<and>
        posted s' = posted ex_state3 @ map payload bs \<and>
        concat bs = [ex_item, ex_item2, ex_item3] \<and>
        length bs = (length [ex_item, ex_item2, ex_item3] + nat 2 - 1) div nat 2 \<and>
        (\<forall>b\<in>set bs. length b \<le> nat 2) \<and> (\<forall>b\<in>set (butlast bs). length b = nat 2) \<and>
        success r = (failed_items r = 0) \<and>
        ((\<forall>n p resp. post_batch ex_env_accepting n p = Inr resp \<longrightarrow>
             length (processed_items resp) = length p) \<longrightarrow>
           synced_items r + failed_items r = length [ex_item, ex_item2, ex_item3]) \<and>
        ([ex_item, ex_item2, ex_item3] = [] \<longrightarrow>
           r = \<lparr>success = True, synced_items = 0, failed_items = 0, errors = []\<rparr> \<and>
           s' = ex_state3)"
    by (elim exE) (rule that)
  have r: "sync ex_env_accepting ex_state3 = Some (Inr r, s')"
    and p: "posted s' = posted ex_state3 @ map payload bs"
    and l: "length bs = (length [ex_item, ex_item2, ex_item3] + nat 2 - 1) div nat 2"
    and su: "success r = (failed_items r = 0)"
    and c: "(\<forall>n p resp. post_batch ex_env_accepting n p = Inr resp \<longrightarrow>
                length (processed_items resp) = length p) \<longrightarrow>
              synced_items r + failed_items r = length [ex_item, ex_item2, ex_item3]"
    using H by simp_all
  have "length (posted s') = 2"
    using p l by (simp add: ex_state3_def)
  moreover have "synced_items r + failed_items r = 3"
    using c resp by simp
  ultimately show ?thesis
    using r su by (intro exI [of _ r] exI [of _ s']) simp
qed

section \<open>SyncService: failures\<close>

lemma handleSyncError_queue:
  assumes "storage_ok e"
  shows "sync_queue (snd (handleSyncError e i msg s)) =
           map (\<lambda>q. if id_item q = id_item i
                     then q\<lparr>retry_count := retry_count i + 1, last_error := Some msg\<rparr>
                     else q) (sync_queue s)"
  using assms by (simp add: handleSyncError_def Let_def storage_ok_db_run)

lemma find_by_id_None:
  "id_item i \<notin> id_item ` set items \<Longrightarrow> find (\<lambda>x. id_item x = id_item i) items = None"
  by (induction items) auto

lemma find_by_id_Some:
  "distinct (map id_item items) \<Longrightarrow> i \<in> set items \<Longrightarrow>
   find (\<lambda>x. id_item x = id_item i) items = Some i"
proof (induction items)
  case Nil
  then show ?case by simp
next
  case (Cons a items)
  show ?case
  proof (cases "a = i")
    case True
    then show ?thesis by simp
  next
    case False
    then have "i \<in> set items" using Cons.prems by simp
    then have "id_item a \<noteq> id_item i" using Cons.prems by auto
    then show ?thesis using Cons \<open>i \<in> set items\<close> by simp
  qed
qed

lemma fail_items_queue:
  assumes "storage_ok e" and "distinct (map id_item items)"
  shows "sync_queue (snd (fail_items e items msg er s)) =
           map (\<lambda>q. case find (\<lambda>i. id_item i = id_item q) items of
                       None \<Rightarrow> q
                     | Some i \<Rightarrow> q\<lparr>retry_count := retry_count i + 1, last_error := Some msg\<rparr>)
               (sync_queue s)"
  using assms(2)
proof (induction items arbitrary: er s)
  case Nil
  then show ?case by simp
next
  case (Cons i items)
  obtain s1 where h: "handleSyncError e i msg s = (Inr (), s1)"
    using handleSyncError_ok [OF assms(1)] by blast
  have q1: "sync_queue s1 =
           map (\<lambda>q. if id_item q = id_item i
                     then q\<lparr>retry_count := retry_count i + 1, last_error := Some msg\<rparr>
                     else q) (sync_queue s)"
    using handleSyncError_queue [OF assms(1), of i msg s] h by simp
  have d: "distinct (map id_item items)" and ni: "id_item i \<notin> id_item ` set items"
    using Cons.prems by simp_all
  have nf: "find (\<lambda>x. id_item x = id_item i) items = None"
    using ni by (rule find_by_id_None)
  have "sync_queue (snd (fail_items e (i # items) msg er s)) =
        sync_queue (snd (fail_items e items msg
           (er @ [Batch_failure (task_id i) (operation i) msg]) s1))"
    by (simp add: h)
  also have "\<dots> = map (\<lambda>q. case find (\<lambda>i. id_item i = id_item q) items of
                       None \<Rightarrow> q
                     | Some i \<Rightarrow> q\<lparr>retry_count := retry_count i + 1, last_error := Some msg\<rparr>)
               (sync_queue s1)"
    by (rule Cons.IH [OF d])
  also have "\<dots> = map (\<lambda>q. case find (\<lambda>x. id_item x = id_item q) (i # items) of
                       None \<Rightarrow> q
                     | Some i \<Rightarrow> q\<lparr>retry_count := retry_count i + 1, last_error := Some msg\<rparr>)
               (sync_queue s)"
    unfolding q1 map_map
  proof (rule map_cong [OF refl])
    fix q assume "q \<in> set (sync_queue s)"
    show "((\<lambda>q. case find (\<lambda>i. id_item i = id_item q) items of
                       None \<Rightarrow> q
                     | Some i \<Rightarrow> q\<lparr>retry_count := retry_count i + 1, last_error := Some msg\<rparr>) \<circ>
           (\<lambda>q. if id_item q = id_item i
                     then q\<lparr>retry_count := retry_count i + 1, last_error := Some msg\<rparr>
                     else q)) q =
          (case find (\<lambda>x. id_item x = id_item q) (i # items) of
                       None \<Rightarrow> q
                     | Some i \<Rightarrow> q\<lparr>retry_count := retry_count i + 1, last_error := Some msg\<rparr>)"
    proof (cases "id_item q = id_item i")
      case True
      then show ?thesis using nf by simp
    next
      case False
      then have "id_item i \<noteq> id_item q" by simp
      then show ?thesis using False by simp
    qed
  qed
  finally show ?case .
qed

text \<open>
  C7. When the post of a batch is rejected (with the storage working and the ids of
  the batch distinct), the loop goes on with the batches that remain, with
  \<open>failed\<close> raised by the size of the batch, \<open>synced\<close> as it was, and one error
  entry per item; in the queue every row with the id of an item of the batch gets that
  item's \<open>retry_count\<close> plus one and the message as \<open>last_error\<close>, no row is
  removed, and an item that is still a row of the queue is there with its count
  incremented. The run ends with a result, not with an error.
\<close>

theorem transport_failure_fails_whole_batch:
  assumes "storage_ok e"
      and "post_batch e (length (posted s)) (payload batch) = Inl msg"
      and "distinct (map id_item batch)"
  shows "\<exists>s'. sync_batches e (batch # batches) (synced, failed, errs) s =
               sync_batches e batches
                 (synced, failed + length batch,
                  errs @ map (\<lambda>i. Batch_failure (task_id i) (operation i) msg) batch) s' \<and>
             sync_queue s' =
               map (\<lambda>q. case find (\<lambda>i. id_item i = id_item q) batch of
                           None \<Rightarrow> q
                         | Some i \<Rightarrow> q\<lparr>retry_count := retry_count i + 1, last_error := Some msg\<rparr>)
                   (sync_queue s) \<and>
             (\<forall>i\<in>set batch. i \<in> set (sync_queue s) \<longrightarrow>
                i\<lparr>retry_count := retry_count i + 1, last_error := Some msg\<rparr> \<in> set (sync_queue s')) \<and>
             (\<exists>sy fa er s''. sync_batches e (batch # batches) (synced, failed, errs) s
                  = (Inr (sy, fa, er), s'') \<and> failed + length batch \<le> fa)"
proof -
  let ?s0 = "s\<lparr>posted := posted s @ [payload batch]\<rparr>"
  let ?er = "errs @ map (\<lambda>i. Batch_failure (task_id i) (operation i) msg) batch"
  let ?g = "\<lambda>q. case find (\<lambda>i. id_item i = id_item q) batch of
                           None \<Rightarrow> q
                         | Some i \<Rightarrow> q\<lparr>retry_count := retry_count i + 1, last_error := Some msg\<rparr>"
  have tb: "try_batch e batch (synced, failed, errs) s = (Inl msg, (synced, failed, errs), ?s0)"
    using assms(2) by (simp add: try_batch_def processBatch_def Let_def)
  obtain s' where fi: "fail_items e batch msg errs ?s0 = (Inr ?er, s')"
    using fail_items_ok [OF assms(1)] by blast
  have step: "sync_batches e (batch # batches) (synced, failed, errs) s =
               sync_batches e batches (synced, failed + length batch, ?er) s'"
    by (simp add: tb fi)
  have q: "sync_queue s' = map ?g (sync_queue s)"
    using fail_items_queue [OF assms(1,3), of msg errs ?s0] fi by simp
  have mem: "i\<lparr>retry_count := retry_count i + 1, last_error := Some msg\<rparr> \<in> set (sync_queue s')"
    if "i \<in> set batch" "i \<in> set (sync_queue s)" for i
  proof -
    have "?g i = i\<lparr>retry_count := retry_count i + 1, last_error := Some msg\<rparr>"
      using find_by_id_Some [OF assms(3) that(1)] by simp
    moreover have "?g i \<in> set (map ?g (sync_queue s))"
      using that(2) by (rule imageI [of i "set (sync_queue s)" ?g, unfolded set_map [symmetric]])
    ultimately show ?thesis
      unfolding q by simp
  qed
  obtain sy fa er s'' where
    fin: "sync_batches e batches (synced, failed + length batch, ?er) s' = (Inr (sy, fa, er), s'')"
    and mono: "failed + length batch \<le> fa"
    using sync_batches_props [OF assms(1), of batches synced "failed + length batch" ?er s']
    by blast
  have last: "\<exists>sy fa er s''. sync_batches e (batch # batches) (synced, failed, errs) s
                  = (Inr (sy, fa, er), s'') \<and> failed + length batch \<le> fa"
    using step fin mono by simp
  show ?thesis
    using step q mem last by (intro exI [of _ s'] conjI ballI impI)
qed

theorem transport_failure_fails_whole_batch_witness:
  "\<exists>s'. sync_batches ex_env [[ex_item]] (0, 0, []) ex_state =
     (Inr (0, 1, [Batch_failure ''t1'' Update ''timeout of 8000ms exceeded'']), s') \<and>
     sync_queue s' =
       [ex_item\<lparr>retry_count := 1, last_error := Some ''timeout of 8000ms exceeded''\<rparr>]"
proof -
  have ok: "storage_ok ex_env" by (rule storage_ok_ex_env)
  have post: "post_batch ex_env (length (posted ex_state)) (payload [ex_item])
                = Inl ''timeout of 8000ms exceeded''"
    by (simp add: ex_env_def)
  have d: "distinct (map id_item [ex_item])" by simp
  from transport_failure_fails_whole_batch [OF ok post d, of "[]" 0 0 "[]"] obtain s' where
    H: "sync_batches ex_env [[ex_item]] (0, 0, []) ex_state =
          sync_batches ex_env []
            (0, 0 + length [ex_item],
             [] @ map (\<lambda>i. Batch_failure (task_id i) (operation i) ''timeout of 8000ms exceeded'')
                    [ex_item]) s'"
       "sync_queue s' =
          map (\<lambda>q. case find (\<lambda>i. id_item i = id_item q) [ex_item] of
                      None \<Rightarrow> q
                    | Some i \<Rightarrow> q\<lparr>retry_count := retry_count i + 1,
                                  last_error := Some ''timeout of 8000ms exceeded''\<rparr>)
              (sync_queue ex_state)"
    by (elim exE conjE) (rule that)
  show ?thesis
    using H by (intro exI [of _ s']) (simp add: ex_state_def ex_item_def)
qed

text \<open>
  Results that are not a success only move the counters: whatever the storage does,
  the loop over the results leaves the state as it was and calls neither
  \<open>handleSyncError\<close> nor \<open>updateSyncStatus\<close>.
\<close>

lemma apply_results_without_success:
  "\<forall>r\<in>set rs. status r \<noteq> Success \<Longrightarrow>
   apply_results e rs (sy, fa, er) s =
     (Inr (), (sy, fa + length rs, er @ map Item_result rs), s)"
  by (induction rs arbitrary: fa er) simp_all

text \<open>
  C5 does not hold of the code. The remote peer answers the batch with an item-level
  error for \<open>t1\<close>; \<open>sync\<close> counts one failure and reports the result, and the queue
  is as before: the item still has \<open>retry_count\<close> 0 and no \<open>last_error\<close>.
  \<open>handleSyncError\<close> is called in the \<open>catch\<close> only.
\<close>

theorem sync_item_error_is_not_recorded:
  "sync ex_env_rejecting ex_state =
     Some (Inr \<lparr>success = False, synced_items = 0, failed_items = 1,
                errors = [Item_result ex_rejection]\<rparr>,
           ex_state\<lparr>posted := [payload [ex_item]]\<rparr>) \<and>
   sync_queue (ex_state\<lparr>posted := [payload [ex_item]]\<rparr>) = [ex_item] \<and>
   retry_count ex_item = 0 \<and> last_error ex_item = None"
  by (simp add: sync_def db_all_due_def make_batches_def batches_from.simps try_batch_def
      processBatch_def is_conflict_def payload_def Let_def
      ex_env_rejecting_def ex_rejection_def ex_env_def ex_state_def ex_local_def ex_item_def)

section \<open>SyncService: retries up to the limit\<close>

lemma handleSyncError_effect:
  assumes "storage_ok e" and "SYNC_RETRY_ATTEMPTS e = Some (int L)"
  shows "handleSyncError e i msg s =
     (Inr (),
      s\<lparr>tasks := (if L \<le> retry_count i + 1
                   then map (\<lambda>t. if id_task t = task_id i then t\<lparr>sync_status := Error\<rparr> else t)
                          (tasks s)
                   else tasks s),
        sync_queue := map (\<lambda>q. if id_item q = id_item i
                     then q\<lparr>retry_count := retry_count i + 1, last_error := Some msg\<rparr>
                     else q) (sync_queue s)\<rparr>)"
  using assms by (simp add: handleSyncError_def Let_def storage_ok_db_run)

lemma handleSyncError_ids:
  assumes "storage_ok e" and "SYNC_RETRY_ATTEMPTS e = Some (int L)"
  shows "map id_item (sync_queue (snd (handleSyncError e i msg s))) = map id_item (sync_queue s)"
  unfolding handleSyncError_effect [OF assms]
  by (simp add: comp_def if_distrib [of id_item] cong: if_cong)

lemma handleSyncError_rows:
  assumes "storage_ok e" and "SYNC_RETRY_ATTEMPTS e = Some (int L)"
      and "id_item i = a \<longrightarrow> task_id i = tid \<and> retry_count i = r"
      and "queue_rows s a tid x h"
  shows "queue_rows (snd (handleSyncError e i msg s)) a tid
           (if id_item i = a then r + 1 else x) (if id_item i = a then True else h)"
proof -
  have "a \<in> set (map id_item (sync_queue (snd (handleSyncError e i msg s))))"
    using assms(4) unfolding handleSyncError_ids [OF assms(1,2)] queue_rows_def by simp
  moreover have "\<forall>q\<in>set (sync_queue (snd (handleSyncError e i msg s))). id_item q = a \<longrightarrow>
         task_id q = tid \<and> retry_count q = (if id_item i = a then r + 1 else x) \<and>
         ((if id_item i = a then True else h) \<longrightarrow> last_error q \<noteq> None)"
    using assms(3,4)
    unfolding handleSyncError_effect [OF assms(1,2)] queue_rows_def
    by auto
  ultimately show ?thesis
    unfolding queue_rows_def by simp
qed

lemma handleSyncError_task_error:
  assumes "storage_ok e" and "SYNC_RETRY_ATTEMPTS e = Some (int L)"
  shows "(task_in_error s tid \<or> (task_id i = tid \<and> L \<le> retry_count i + 1))
         \<Longrightarrow> task_in_error (snd (handleSyncError e i msg s)) tid"
  unfolding handleSyncError_effect [OF assms(1,2)] task_in_error_def
  by auto


lemma queue_rows_posted [simp]: "queue_rows (s\<lparr>posted := p\<rparr>) a tid r h = queue_rows s a tid r h"
  by (simp add: queue_rows_def)

lemma task_in_error_posted [simp]: "task_in_error (s\<lparr>posted := p\<rparr>) tid = task_in_error s tid"
  by (simp add: task_in_error_def)

lemma queue_rows_weaken:
  "queue_rows s a tid r h \<Longrightarrow> (h' \<longrightarrow> h) \<Longrightarrow> queue_rows s a tid r h'"
  by (auto simp: queue_rows_def)

lemma fail_items_rows:
  assumes "storage_ok e" and "SYNC_RETRY_ATTEMPTS e = Some (int L)"
  shows "\<forall>i\<in>set its. id_item i = a \<longrightarrow> task_id i = tid \<and> retry_count i = r \<Longrightarrow>
         queue_rows s a tid x h \<Longrightarrow>
         queue_rows (snd (fail_items e its msg er s)) a tid
           (if \<exists>i\<in>set its. id_item i = a then r + 1 else x)
           (if \<exists>i\<in>set its. id_item i = a then True else h)"
proof (induction its arbitrary: er s x h)
  case Nil
  then show ?case by simp
next
  case (Cons i its)
  define hi where "hi = (id_item i = a)"
  define hr where "hr = (\<exists>j\<in>set its. id_item j = a)"
  have both: "(\<exists>j\<in>set (i # its). id_item j = a) = (hi \<or> hr)"
    unfolding hi_def hr_def by auto
  obtain s1 where h: "handleSyncError e i msg s = (Inr (), s1)"
    using handleSyncError_ok [OF assms(1), of i msg s] by blast
  have pi: "id_item i = a \<longrightarrow> task_id i = tid \<and> retry_count i = r"
    and rest: "\<forall>j\<in>set its. id_item j = a \<longrightarrow> task_id j = tid \<and> retry_count j = r"
    using Cons.prems(1) by simp_all
  have "queue_rows (snd (handleSyncError e i msg s)) a tid
              (if id_item i = a then r + 1 else x) (if id_item i = a then True else h)"
    by (rule handleSyncError_rows [OF assms pi Cons.prems(2)])
  then have r1: "queue_rows s1 a tid (if hi then r + 1 else x) (if hi then True else h)"
    unfolding hi_def by (simp add: h)
  have step: "fail_items e (i # its) msg er s =
              fail_items e its msg (er @ [Batch_failure (task_id i) (operation i) msg]) s1"
    by (simp add: h)
  have r2: "queue_rows (snd (fail_items e (i # its) msg er s)) a tid
              (if hr then r + 1 else (if hi then r + 1 else x))
              (if hr then True else (if hi then True else h))"
    unfolding step hr_def by (rule Cons.IH [OF rest r1])
  show ?case
    unfolding both using r2 by (cases hi; cases hr) simp_all
qed

lemma fail_items_task_error:
  assumes "storage_ok e" and "SYNC_RETRY_ATTEMPTS e = Some (int L)"
  shows "task_in_error s tid \<or> (\<exists>i\<in>set its. task_id i = tid \<and> L \<le> retry_count i + 1) \<Longrightarrow>
         task_in_error (snd (fail_items e its msg er s)) tid"
proof (induction its arbitrary: er s)
  case Nil
  then show ?case by simp
next
  case (Cons i its)
  define hr where "hr = (\<exists>j\<in>set its. task_id j = tid \<and> L \<le> retry_count j + 1)"
  obtain s1 where h: "handleSyncError e i msg s = (Inr (), s1)"
    using handleSyncError_ok [OF assms(1), of i msg s] by blast
  have step: "fail_items e (i # its) msg er s =
              fail_items e its msg (er @ [Batch_failure (task_id i) (operation i) msg]) s1"
    by (simp add: h)
  have pre: "task_in_error s tid \<or> (task_id i = tid \<and> L \<le> retry_count i + 1) \<or> hr"
    using Cons.prems unfolding hr_def by auto
  have "task_in_error s1 tid \<or> hr"
  proof (cases hr)
    case True
    then show ?thesis by simp
  next
    case False
    then have "task_in_error s tid \<or> (task_id i = tid \<and> L \<le> retry_count i + 1)"
      using pre by simp
    then have "task_in_error (snd (handleSyncError e i msg s)) tid"
      by (rule handleSyncError_task_error [OF assms])
    then show ?thesis by (simp add: h)
  qed
  then show ?case
    unfolding step hr_def by (rule Cons.IH)
qed

lemma failing_try_batch:
  assumes "\<forall>n p. \<exists>m. post_batch e n p = Inl m"
  shows "\<exists>m. try_batch e b acc s = (Inl m, acc, s\<lparr>posted := posted s @ [payload b]\<rparr>)"
proof -
  obtain m where "post_batch e (length (posted s)) (payload b) = Inl m"
    using assms by blast
  then show ?thesis
    by (simp add: try_batch_def processBatch_def Let_def)
qed

lemma failing_batches_step:
  assumes "storage_ok e" and "\<forall>n p. \<exists>m. post_batch e n p = Inl m"
  shows "\<exists>m er'. sync_batches e (b # bs) (sy, fa, er) s =
           sync_batches e bs (sy, fa + length b, er')
             (snd (fail_items e b m er (s\<lparr>posted := posted s @ [payload b]\<rparr>)))"
proof -
  let ?s0 = "s\<lparr>posted := posted s @ [payload b]\<rparr>"
  obtain m where tb: "try_batch e b (sy, fa, er) s = (Inl m, (sy, fa, er), ?s0)"
    using failing_try_batch [OF assms(2)] by blast
  obtain s1 where fi: "fail_items e b m er ?s0 =
        (Inr (er @ map (\<lambda>i. Batch_failure (task_id i) (operation i) m) b), s1)"
    using fail_items_ok [OF assms(1)] by blast
  have "sync_batches e (b # bs) (sy, fa, er) s =
        sync_batches e bs (sy, fa + length b,
           er @ map (\<lambda>i. Batch_failure (task_id i) (operation i) m) b)
          (snd (fail_items e b m er ?s0))"
    by (simp add: tb fi)
  then show ?thesis by blast
qed

lemma failing_batches_rows:
  assumes "storage_ok e" and "SYNC_RETRY_ATTEMPTS e = Some (int L)"
      and "\<forall>n p. \<exists>m. post_batch e n p = Inl m"
  shows "\<forall>i\<in>set (concat bs). id_item i = a \<longrightarrow> task_id i = tid \<and> retry_count i = r \<Longrightarrow>
         queue_rows s a tid x h \<Longrightarrow>
         queue_rows (snd (sync_batches e bs (sy, fa, er) s)) a tid
           (if \<exists>i\<in>set (concat bs). id_item i = a then r + 1 else x)
           (if \<exists>i\<in>set (concat bs). id_item i = a then True else h)"
proof (induction bs arbitrary: sy fa er s x h)
  case Nil
  then show ?case by simp
next
  case (Cons b bs)
  let ?s0 = "s\<lparr>posted := posted s @ [payload b]\<rparr>"
  define hb where "hb = (\<exists>i\<in>set b. id_item i = a)"
  define hbs where "hbs = (\<exists>i\<in>set (concat bs). id_item i = a)"
  have both: "(\<exists>i\<in>set (concat (b # bs)). id_item i = a) = (hb \<or> hbs)"
    unfolding hb_def hbs_def by auto
  obtain m er' where step: "sync_batches e (b # bs) (sy, fa, er) s =
           sync_batches e bs (sy, fa + length b, er') (snd (fail_items e b m er ?s0))"
    using failing_batches_step [OF assms(1,3)] by blast
  have pb: "\<forall>i\<in>set b. id_item i = a \<longrightarrow> task_id i = tid \<and> retry_count i = r"
    and pbs: "\<forall>i\<in>set (concat bs). id_item i = a \<longrightarrow> task_id i = tid \<and> retry_count i = r"
    using Cons.prems(1) by simp_all
  have q0: "queue_rows ?s0 a tid x h"
    using Cons.prems(2) by simp
  have r1: "queue_rows (snd (fail_items e b m er ?s0)) a tid
           (if hb then r + 1 else x) (if hb then True else h)"
    unfolding hb_def by (rule fail_items_rows [OF assms(1,2) pb q0])
  have r2: "queue_rows (snd (sync_batches e (b # bs) (sy, fa, er) s)) a tid
           (if hbs then r + 1 else (if hb then r + 1 else x))
           (if hbs then True else (if hb then True else h))"
    unfolding step hbs_def by (rule Cons.IH [OF pbs r1])
  show ?case
    unfolding both using r2 by (cases hb; cases hbs) simp_all
qed

lemma failing_batches_task_error:
  assumes "storage_ok e" and "SYNC_RETRY_ATTEMPTS e = Some (int L)"
      and "\<forall>n p. \<exists>m. post_batch e n p = Inl m"
  shows "task_in_error s tid \<or>
           (\<exists>i\<in>set (concat bs). task_id i = tid \<and> L \<le> retry_count i + 1) \<Longrightarrow>
         task_in_error (snd (sync_batches e bs (sy, fa, er) s)) tid"
proof (induction bs arbitrary: sy fa er s)
  case Nil
  then show ?case by simp
next
  case (Cons b bs)
  let ?s0 = "s\<lparr>posted := posted s @ [payload b]\<rparr>"
  define hb where "hb = (\<exists>i\<in>set b. task_id i = tid \<and> L \<le> retry_count i + 1)"
  define hbs where "hbs = (\<exists>i\<in>set (concat bs). task_id i = tid \<and> L \<le> retry_count i + 1)"
  have both: "(\<exists>i\<in>set (concat (b # bs)). task_id i = tid \<and> L \<le> retry_count i + 1)
                = (hb \<or> hbs)"
    unfolding hb_def hbs_def by auto
  obtain m er' where step: "sync_batches e (b # bs) (sy, fa, er) s =
           sync_batches e bs (sy, fa + length b, er') (snd (fail_items e b m er ?s0))"
    using failing_batches_step [OF assms(1,3)] by blast
  have pre: "task_in_error s tid \<or> hb \<or> hbs"
    using Cons.prems unfolding both by simp
  have "task_in_error (snd (fail_items e b m er ?s0)) tid \<or> hbs"
  proof (cases hbs)
    case True
    then show ?thesis by simp
  next
    case False
    then have "task_in_error ?s0 tid \<or> hb"
      using pre by simp
    then have "task_in_error (snd (fail_items e b m er ?s0)) tid"
      unfolding hb_def by (rule fail_items_task_error [OF assms(1,2)])
    then show ?thesis by simp
  qed
  then show ?case
    unfolding step hbs_def by (rule Cons.IH)
qed

lemma set_db_all_due:
  assumes "storage_ok e" and "db_all_due e (Some (int L)) s = Inr its"
  shows "set its = {q \<in> set (sync_queue s). retry_count q < L}"
  using assms by (auto simp: storage_ok_db_all_due)

lemma failing_sync_rows:
  assumes "storage_ok e" and "SYNC_RETRY_ATTEMPTS e = Some (int L)"
      and "SYNC_BATCH_SIZE e = Some B" and "0 < B"
      and "\<forall>n p. \<exists>m. post_batch e n p = Inl m"
      and "queue_rows s a tid r h"
  shows "\<exists>res s'. sync e s = Some (Inr res, s') \<and>
           queue_rows s' a tid (if r < L then r + 1 else r) (r < L \<or> h) \<and>
           ((task_in_error s tid \<or> (r < L \<and> L \<le> r + 1)) \<longrightarrow> task_in_error s' tid)"
proof -
  obtain its where due: "db_all_due e (SYNC_RETRY_ATTEMPTS e) s = Inr its"
    using assms(1) by (simp add: storage_ok_db_all_due)
  have sits: "set its = {q \<in> set (sync_queue s). retry_count q < L}"
    using set_db_all_due [OF assms(1)] due assms(2) by simp
  obtain q0 where q0: "q0 \<in> set (sync_queue s)" "id_item q0 = a"
    using assms(6) by (auto simp: queue_rows_def)
  have rows: "\<And>q. q \<in> set (sync_queue s) \<Longrightarrow> id_item q = a \<Longrightarrow>
                 task_id q = tid \<and> retry_count q = r"
    using assms(6) by (simp add: queue_rows_def)
  have q0r: "task_id q0 = tid" "retry_count q0 = r"
    using rows [OF q0] by simp_all
  have hit: "(\<exists>i\<in>set its. id_item i = a) = (r < L)"
  proof
    assume "\<exists>i\<in>set its. id_item i = a"
    then obtain i where "i \<in> set (sync_queue s)" "retry_count i < L" "id_item i = a"
      using sits by auto
    then show "r < L" using rows by auto
  next
    assume "r < L"
    then have "q0 \<in> set its" using sits q0 q0r by simp
    then show "\<exists>i\<in>set its. id_item i = a" using q0(2) by blast
  qed
  have pits: "\<forall>i\<in>set its. id_item i = a \<longrightarrow> task_id i = tid \<and> retry_count i = r"
    using sits rows by auto
  have terr: "\<exists>i\<in>set its. task_id i = tid \<and> L \<le> retry_count i + 1" if "r < L" "L \<le> r + 1"
  proof -
    have "q0 \<in> set its" using sits q0 q0r that by simp
    then show ?thesis using q0r that by blast
  qed
  show ?thesis
  proof (cases "its = []")
    case True
    have run: "sync e s =
        Some (Inr \<lparr>success = True, synced_items = 0, failed_items = 0, errors = []\<rparr>, s)"
      using due True by (simp add: sync_def)
    have nl: "\<not> r < L" using hit True by simp
    have "queue_rows s a tid (if r < L then r + 1 else r) (r < L \<or> h)"
      using assms(6) nl by simp
    then show ?thesis
      using run nl by auto
  next
    case False
    define bs where "bs = batches_from (nat B) 0 its"
    have pos: "0 < nat B" using assms(4) by simp
    have mk: "make_batches (SYNC_BATCH_SIZE e) its = Some bs"
      using assms(3,4) by (simp add: make_batches_def bs_def)
    have cc: "concat bs = its"
      using concat_batches_from [OF pos, of 0 its] by (simp add: bs_def)
    obtain sy fa er s' where
      sb: "sync_batches e bs (0, 0, []) s = (Inr (sy, fa, er), s')"
      using sync_batches_props [OF assms(1), of bs 0 0 "[]" s] by blast
    have run: "sync e s = Some (Inr \<lparr>success = (fa = 0), synced_items = sy,
                                   failed_items = fa, errors = er\<rparr>, s')"
      using due False mk sb by (simp add: sync_def)
    have s': "s' = snd (sync_batches e bs (0, 0, []) s)"
      by (simp add: sb)
    have pbs: "\<forall>i\<in>set (concat bs). id_item i = a \<longrightarrow> task_id i = tid \<and> retry_count i = r"
      unfolding cc by (rule pits)
    have "queue_rows s' a tid
           (if \<exists>i\<in>set (concat bs). id_item i = a then r + 1 else r)
           (if \<exists>i\<in>set (concat bs). id_item i = a then True else h)"
      unfolding s' by (rule failing_batches_rows [OF assms(1,2,5) pbs assms(6)])
    then have qr: "queue_rows s' a tid (if r < L then r + 1 else r) (r < L \<or> h)"
      unfolding cc hit by (cases "r < L") simp_all
    have te: "task_in_error s' tid" if "task_in_error s tid \<or> (r < L \<and> L \<le> r + 1)"
    proof -
      have "task_in_error s tid \<or>
              (\<exists>i\<in>set (concat bs). task_id i = tid \<and> L \<le> retry_count i + 1)"
        unfolding cc using that terr by blast
      then show ?thesis
        unfolding s' by (rule failing_batches_task_error [OF assms(1,2,5)])
    qed
    show ?thesis
      using run qr te by blast
  qed
qed

lemma failing_cycles_rows:
  assumes "storage_ok e" and "SYNC_RETRY_ATTEMPTS e = Some (int L)"
      and "SYNC_BATCH_SIZE e = Some B" and "0 < B"
      and "\<forall>n p. \<exists>m. post_batch e n p = Inl m"
  shows "queue_rows s a tid r h \<Longrightarrow>
         \<exists>s'. sync_cycles e n s = Some s' \<and>
           queue_rows s' a tid (if r < L then min L (r + n) else r) (h \<or> (r < L \<and> 0 < n)) \<and>
           ((task_in_error s tid \<or> (r < L \<and> L \<le> r + n)) \<longrightarrow> task_in_error s' tid)"
proof (induction n arbitrary: s r h)
  case 0
  then show ?case by (auto elim: queue_rows_weaken)
next
  case (Suc n)
  define r1 where "r1 = (if r < L then r + 1 else r)"
  obtain res s1 where run: "sync e s = Some (Inr res, s1)"
    and q1: "queue_rows s1 a tid r1 (r < L \<or> h)"
    and t1: "(task_in_error s tid \<or> (r < L \<and> L \<le> r + 1)) \<longrightarrow> task_in_error s1 tid"
    using failing_sync_rows [OF assms Suc.prems] unfolding r1_def by blast
  obtain s' where cyc: "sync_cycles e n s1 = Some s'"
    and q2: "queue_rows s' a tid (if r1 < L then min L (r1 + n) else r1)
               ((r < L \<or> h) \<or> (r1 < L \<and> 0 < n))"
    and t2: "(task_in_error s1 tid \<or> (r1 < L \<and> L \<le> r1 + n)) \<longrightarrow> task_in_error s' tid"
    using Suc.IH [OF q1] by blast
  have all: "sync_cycles e (Suc n) s = Some s'"
    by (simp add: run cyc)
  have req: "(if r1 < L then min L (r1 + n) else r1) = (if r < L then min L (r + Suc n) else r)"
    unfolding r1_def by auto
  have "queue_rows s' a tid (if r < L then min L (r + Suc n) else r)
               ((r < L \<or> h) \<or> (r1 < L \<and> 0 < n))"
    using q2 unfolding req .
  then have qr: "queue_rows s' a tid (if r < L then min L (r + Suc n) else r)
               (h \<or> (r < L \<and> 0 < Suc n))"
    by (rule queue_rows_weaken) auto
  have te: "task_in_error s' tid" if "task_in_error s tid \<or> (r < L \<and> L \<le> r + Suc n)"
  proof (cases "task_in_error s tid \<or> (r < L \<and> L \<le> r + 1)")
    case True
    then show ?thesis using t1 t2 by blast
  next
    case False
    then have "r < L" "L \<le> r + Suc n" "r + 1 < L" using that by auto
    then have "r1 < L \<and> L \<le> r1 + n" unfolding r1_def by simp
    then show ?thesis using t2 by blast
  qed
  show ?case
    using all qr te by blast
qed

text \<open>
  C8. With a working storage and the retry limit \<open>L\<close>: when \<open>handleSyncError\<close>
  brings an item's count to the limit or beyond, the rows with the item's id stay in
  the queue with the new \<open>retry_count\<close> and the message as \<open>last_error\<close>, the rows
  of the owning task get \<open>sync_status\<close> error, and the item is no longer among the due
  items. And when every post is rejected, \<open>L\<close> calls of \<open>sync\<close> in a row return
  and leave an item that started with \<open>retry_count\<close> 0 (in a queue of distinct ids)
  in the queue with \<open>retry_count = L\<close>, a \<open>last_error\<close>, and its task in error.
\<close>

theorem retry_limit_keeps_item_and_marks_task:
  assumes "storage_ok e" and "SYNC_RETRY_ATTEMPTS e = Some (int L)"
  shows "(L \<le> retry_count item + 1 \<longrightarrow>
           (\<exists>s'. handleSyncError e item msg s = (Inr (), s') \<and>
              sync_queue s' =
                map (\<lambda>q. if id_item q = id_item item
                          then q\<lparr>retry_count := retry_count item + 1, last_error := Some msg\<rparr>
                          else q) (sync_queue s) \<and>
              tasks s' =
                map (\<lambda>t. if id_task t = task_id item then t\<lparr>sync_status := Error\<rparr> else t)
                    (tasks s) \<and>
              (\<forall>its. db_all_due e (SYNC_RETRY_ATTEMPTS e) s' = Inr its \<longrightarrow>
                 id_item item \<notin> set (map id_item its)))) \<and>
         (SYNC_BATCH_SIZE e = Some B \<and> 0 < B \<and> (\<forall>n p. \<exists>m. post_batch e n p = Inl m) \<and>
          distinct (map id_item (sync_queue s)) \<and> item \<in> set (sync_queue s) \<and>
          retry_count item = 0 \<longrightarrow>
           (\<exists>s'. sync_cycles e L s = Some s' \<and>
              id_item item \<in> set (map id_item (sync_queue s')) \<and>
              (\<forall>q\<in>set (sync_queue s'). id_item q = id_item item \<longrightarrow>
                 task_id q = task_id item \<and> retry_count q = L \<and>
                 (0 < L \<longrightarrow> last_error q \<noteq> None)) \<and>
              (0 < L \<longrightarrow>
                 (\<forall>t\<in>set (tasks s'). id_task t = task_id item \<longrightarrow> sync_status t = Error))))"
proof (intro conjI impI)
  assume lim: "L \<le> retry_count item + 1"
  let ?s' = "s\<lparr>tasks := map (\<lambda>t. if id_task t = task_id item then t\<lparr>sync_status := Error\<rparr> else t)
                          (tasks s),
        sync_queue := map (\<lambda>q. if id_item q = id_item item
                     then q\<lparr>retry_count := retry_count item + 1, last_error := Some msg\<rparr>
                     else q) (sync_queue s)\<rparr>"
  have eff: "handleSyncError e item msg s = (Inr (), ?s')"
    using handleSyncError_effect [OF assms, of item msg s] lim by simp
  have nd: "id_item item \<notin> set (map id_item its)"
    if "db_all_due e (SYNC_RETRY_ATTEMPTS e) ?s' = Inr its" for its
  proof -
    have "set its = {q \<in> set (sync_queue ?s'). retry_count q < L}"
      using set_db_all_due [OF assms(1), of L ?s' its] that assms(2) by simp
    then have "\<forall>q\<in>set its. id_item q \<noteq> id_item item"
      using lim by auto
    then show ?thesis by auto
  qed
  show "\<exists>s'. handleSyncError e item msg s = (Inr (), s') \<and>
              sync_queue s' =
                map (\<lambda>q. if id_item q = id_item item
                          then q\<lparr>retry_count := retry_count item + 1, last_error := Some msg\<rparr>
                          else q) (sync_queue s) \<and>
              tasks s' =
                map (\<lambda>t. if id_task t = task_id item then t\<lparr>sync_status := Error\<rparr> else t)
                    (tasks s) \<and>
              (\<forall>its. db_all_due e (SYNC_RETRY_ATTEMPTS e) s' = Inr its \<longrightarrow>
                 id_item item \<notin> set (map id_item its))"
    using eff nd by (intro exI [of _ ?s']) simp
next
  assume h: "SYNC_BATCH_SIZE e = Some B \<and> 0 < B \<and> (\<forall>n p. \<exists>m. post_batch e n p = Inl m) \<and>
          distinct (map id_item (sync_queue s)) \<and> item \<in> set (sync_queue s) \<and>
          retry_count item = 0"
  then have b: "SYNC_BATCH_SIZE e = Some B" and pos: "0 < B"
    and fl: "\<forall>n p. \<exists>m. post_batch e n p = Inl m"
    and d: "distinct (map id_item (sync_queue s))" and mem: "item \<in> set (sync_queue s)"
    and r0: "retry_count item = 0"
    by simp_all
  have inj: "inj_on id_item (set (sync_queue s))"
    using d by (simp add: distinct_map)
  have uniq: "q = item" if "q \<in> set (sync_queue s)" "id_item q = id_item item" for q
    using inj that mem by (auto dest: inj_onD)
  have start: "queue_rows s (id_item item) (task_id item) 0 False"
    unfolding queue_rows_def using mem uniq r0 by auto
  obtain s' where cyc: "sync_cycles e L s = Some s'"
    and q: "queue_rows s' (id_item item) (task_id item)
              (if 0 < L then min L (0 + L) else 0) (False \<or> (0 < L \<and> 0 < L))"
    and t: "(task_in_error s (task_id item) \<or> (0 < L \<and> L \<le> 0 + L))
              \<longrightarrow> task_in_error s' (task_id item)"
    using failing_cycles_rows [OF assms b pos fl start, of L] by blast
  have q': "queue_rows s' (id_item item) (task_id item) L (0 < L)"
    using q by (cases "0 < L") simp_all
  show "\<exists>s'. sync_cycles e L s = Some s' \<and>
              id_item item \<in> set (map id_item (sync_queue s')) \<and>
              (\<forall>q\<in>set (sync_queue s'). id_item q = id_item item \<longrightarrow>
                 task_id q = task_id item \<and> retry_count q = L \<and>
                 (0 < L \<longrightarrow> last_error q \<noteq> None)) \<and>
              (0 < L \<longrightarrow>
                 (\<forall>t\<in>set (tasks s'). id_task t = task_id item \<longrightarrow> sync_status t = Error))"
    using cyc q' t by (intro exI [of _ s']) (simp add: queue_rows_def task_in_error_def)
qed

theorem retry_limit_keeps_item_and_marks_task_witness:
  "handleSyncError ex_env ex_item3 ''socket hang up'' ex_state3 =
     (Inr (),
      ex_state3\<lparr>tasks := [ex_local, ex_task2, ex_task3\<lparr>sync_status := Error\<rparr>],
                sync_queue := [ex_item, ex_item2,
                  ex_item3\<lparr>retry_count := 2, last_error := Some ''socket hang up''\<rparr>]\<rparr>) \<and>
   sync_cycles ex_env 2 ex_state =
     Some (ex_state\<lparr>tasks := [ex_local\<lparr>sync_status := Error\<rparr>],
             sync_queue := [ex_item\<lparr>retry_count := 2,
                              last_error := Some ''timeout of 8000ms exceeded''\<rparr>],
             posted := [[ex_item], [ex_item\<lparr>retry_count := 1\<rparr>]]\<rparr>)"
proof -
  have a: "handleSyncError ex_env ex_item3 ''socket hang up'' ex_state3 =
     (Inr (),
      ex_state3\<lparr>tasks := [ex_local, ex_task2, ex_task3\<lparr>sync_status := Error\<rparr>],
                sync_queue := [ex_item, ex_item2,
                  ex_item3\<lparr>retry_count := 2, last_error := Some ''socket hang up''\<rparr>]\<rparr>)"
    by (simp add: handleSyncError_def db_run_def Let_def ex_env_def ex_state3_def
        ex_item_def ex_item2_def ex_item3_def ex_local_def ex_task2_def ex_task3_def)
  have b: "sync_cycles ex_env 2 ex_state =
     Some (ex_state\<lparr>tasks := [ex_local\<lparr>sync_status := Error\<rparr>],
             sync_queue := [ex_item\<lparr>retry_count := 2,
                              last_error := Some ''timeout of 8000ms exceeded''\<rparr>],
             posted := [[ex_item], [ex_item\<lparr>retry_count := 1\<rparr>]]\<rparr>)"
    by (simp add: numeral_2_eq_2 sync_def db_all_due_def make_batches_def batches_from.simps
        try_batch_def processBatch_def handleSyncError_def db_run_def payload_def Let_def
        ex_env_def ex_state_def ex_item_def ex_local_def)
  have l: "SYNC_RETRY_ATTEMPTS ex_env = Some (int 2)"
    by (simp add: ex_env_def)
  have hyp_a: "2 \<le> retry_count ex_item3 + 1"
    by (simp add: ex_item3_def)
  have hyp_b: "SYNC_BATCH_SIZE ex_env = Some 2 \<and> (0::int) < 2 \<and>
          (\<forall>n p. \<exists>m. post_batch ex_env n p = Inl m) \<and>
          distinct (map id_item (sync_queue ex_state)) \<and> ex_item \<in> set (sync_queue ex_state) \<and>
          retry_count ex_item = 0"
    by (simp add: ex_env_def ex_state_def ex_item_def)
  note retry_limit_keeps_item_and_marks_task [OF storage_ok_ex_env l, where item = ex_item3 and s = ex_state3
             and msg = "''socket hang up''" and B = 2, THEN conjunct1, rule_format, OF hyp_a]
       retry_limit_keeps_item_and_marks_task [OF storage_ok_ex_env l, where item = ex_item and s = ex_state
             and msg = "''socket hang up''" and B = 2, THEN conjunct2, rule_format, OF hyp_b]
  then show ?thesis
    by (simp only: a b simp_thms)
qed

section \<open>SyncService: recording a success\<close>

lemma updateSyncStatus_synced_effect:
  assumes "storage_ok e"
  shows "updateSyncStatus e taskId Synced serverData s =
     (Inr (),
      s\<lparr>tasks := map (\<lambda>t. if id_task t = taskId
                 then t\<lparr>sync_status := Synced,
                        server_id := (case serverData of Some d \<Rightarrow> server_id_opt d | None \<Rightarrow> None),
                        last_synced_at := Some (now e)\<rparr>
                 else t) (tasks s),
        sync_queue := filter (\<lambda>q. task_id q \<noteq> taskId) (sync_queue s)\<rparr>)"
  using assms by (simp add: updateSyncStatus_def storage_ok_db_run)

lemma createTasks_effect:
  assumes "storage_ok e"
  shows "createTasks e reqs s =
     (Inr (map (\<lambda>(taskData, i, qid). new_task e taskData i) reqs),
      s\<lparr>tasks := tasks s @ map (stored_task e) reqs,
        sync_queue := sync_queue s @ map (queued_create e) reqs\<rparr>)"
proof (induction reqs arbitrary: s)
  case Nil
  then show ?case by simp
next
  case (Cons req reqs)
  obtain taskData i qid where req: "req = (taskData, i, qid)"
    by (cases req) auto
  have c: "createTask e taskData i qid s =
     (Inr (new_task e taskData i),
      s\<lparr>tasks := tasks s @ [stored_task e req],
        sync_queue := sync_queue s @ [queued_create e req]\<rparr>)"
    using assms
    by (simp add: createTask_def Let_def storage_ok_db_run req stored_task_def
        queued_create_def new_task_def)
  show ?case
    unfolding req
    by (simp add: c [unfolded req] Cons.IH)
qed

lemma resolve_conflicts_none:
  "\<forall>r\<in>set rs. status r = Success \<Longrightarrow> resolve_conflicts e rs s = (Inr rs, s)"
  by (induction rs arbitrary: s) (simp_all add: is_conflict_def)

lemma apply_results_accepted:
  assumes "storage_ok e"
  shows "\<forall>r\<in>set rs. status r = Success \<Longrightarrow>
         \<exists>s'. apply_results e rs (sy, fa, er) s = (Inr (), (sy + length rs, fa, er), s') \<and>
           sync_queue s' = filter (\<lambda>q. task_id q \<notin> set (map client_id rs)) (sync_queue s) \<and>
           map id_task (tasks s') = map id_task (tasks s) \<and> posted s' = posted s \<and>
           (\<forall>X. tasks_synced s X \<longrightarrow> tasks_synced s' (X \<union> set (map client_id rs)))"
proof (induction rs arbitrary: sy s)
  case Nil
  then show ?case by simp
next
  case (Cons r rs)
  let ?s1 = "s\<lparr>tasks := map (\<lambda>t. if id_task t = client_id r
                 then t\<lparr>sync_status := Synced,
                        server_id := (case resolved_data r of Some d \<Rightarrow> server_id_opt d
                                      | None \<Rightarrow> None),
                        last_synced_at := Some (now e)\<rparr>
                 else t) (tasks s),
        sync_queue := filter (\<lambda>q. task_id q \<noteq> client_id r) (sync_queue s)\<rparr>"
  have u: "updateSyncStatus e (client_id r) Synced (resolved_data r) s = (Inr (), ?s1)"
    by (rule updateSyncStatus_synced_effect [OF assms])
  have st: "status r = Success" and rest: "\<forall>r\<in>set rs. status r = Success"
    using Cons.prems by simp_all
  obtain s' where
    ar: "apply_results e rs (sy + 1, fa, er) ?s1 = (Inr (), (sy + 1 + length rs, fa, er), s')"
    and q: "sync_queue s' = filter (\<lambda>q. task_id q \<notin> set (map client_id rs)) (sync_queue ?s1)"
    and ids: "map id_task (tasks s') = map id_task (tasks ?s1)"
    and p: "posted s' = posted ?s1"
    and ts: "\<forall>X. tasks_synced ?s1 X \<longrightarrow> tasks_synced s' (X \<union> set (map client_id rs))"
    using Cons.IH [OF rest, of "sy + 1" ?s1] by blast
  have step: "apply_results e (r # rs) (sy, fa, er) s =
               (Inr (), (sy + length (r # rs), fa, er), s')"
    using st u ar by simp
  have q': "sync_queue s' = filter (\<lambda>q. task_id q \<notin> set (map client_id (r # rs))) (sync_queue s)"
    unfolding q by (auto intro: filter_cong)
  have ids1: "map id_task (tasks ?s1) = map id_task (tasks s)"
    by (simp add: comp_def if_distrib [of id_task] cong: if_cong)
  have ts1: "tasks_synced ?s1 (insert (client_id r) X)" if "tasks_synced s X" for X
    using that by (auto simp: tasks_synced_def)
  have ts': "tasks_synced s' (X \<union> set (map client_id (r # rs)))" if "tasks_synced s X" for X
  proof -
    have "tasks_synced s' (insert (client_id r) X \<union> set (map client_id rs))"
      using ts ts1 [OF that] by blast
    then show ?thesis by (simp add: Un_commute insert_commute) 
  qed
  show ?case
    using step q' ids ids1 p ts' by (intro exI [of _ s']) simp
qed

lemma task_id_payload [simp]: "map task_id (payload b) = map task_id b"
  by (simp add: payload_def comp_def)

lemma accepted_try_batch:
  assumes "storage_ok e" and "accepting e"
  shows "\<exists>s'. try_batch e b (sy, fa, er) s = (Inr (), (sy + length b, fa, er), s') \<and>
           sync_queue s' = filter (\<lambda>q. task_id q \<notin> set (map task_id b)) (sync_queue s) \<and>
           map id_task (tasks s') = map id_task (tasks s) \<and>
           (\<forall>X. tasks_synced s X \<longrightarrow> tasks_synced s' (X \<union> set (map task_id b)))"
proof -
  let ?s0 = "s\<lparr>posted := posted s @ [payload b]\<rparr>"
  obtain resp where post: "post_batch e (length (posted s)) (payload b) = Inr resp"
    and cids: "map client_id (processed_items resp) = map task_id b"
    and succ: "\<forall>r\<in>set (processed_items resp). status r = Success"
    using assms(2) unfolding accepting_def
    by (metis task_id_payload)
  have len: "length (processed_items resp) = length b"
    using cids by (metis length_map)
  have pb: "processBatch e b s = (Inr resp, ?s0)"
    using post by (simp add: processBatch_def Let_def resolve_conflicts_none [OF succ])
  obtain s' where
    ar: "apply_results e (processed_items resp) (sy, fa, er) ?s0 =
           (Inr (), (sy + length (processed_items resp), fa, er), s')"
    and q: "sync_queue s' =
              filter (\<lambda>q. task_id q \<notin> set (map client_id (processed_items resp))) (sync_queue ?s0)"
    and ids: "map id_task (tasks s') = map id_task (tasks ?s0)"
    and ts: "\<forall>X. tasks_synced ?s0 X \<longrightarrow>
                tasks_synced s' (X \<union> set (map client_id (processed_items resp)))"
    using apply_results_accepted [OF assms(1) succ, of sy fa er ?s0] by blast
  have tb: "try_batch e b (sy, fa, er) s = (Inr (), (sy + length b, fa, er), s')"
    by (simp add: try_batch_def pb ar len)
  have ts0: "tasks_synced ?s0 X = tasks_synced s X" for X
    by (simp add: tasks_synced_def)
  show ?thesis
    using tb q ids ts unfolding cids ts0 by (intro exI [of _ s']) simp
qed

lemma accepted_batches:
  assumes "storage_ok e" and "accepting e"
  shows "\<exists>s'. sync_batches e bs (sy, fa, er) s = (Inr (sy + length (concat bs), fa, er), s') \<and>
           sync_queue s' =
             filter (\<lambda>q. task_id q \<notin> set (map task_id (concat bs))) (sync_queue s) \<and>
           map id_task (tasks s') = map id_task (tasks s) \<and>
           (\<forall>X. tasks_synced s X \<longrightarrow> tasks_synced s' (X \<union> set (map task_id (concat bs))))"
proof (induction bs arbitrary: sy s)
  case Nil
  then show ?case by simp
next
  case (Cons b bs)
  obtain s1 where
    tb: "try_batch e b (sy, fa, er) s = (Inr (), (sy + length b, fa, er), s1)"
    and q1: "sync_queue s1 = filter (\<lambda>q. task_id q \<notin> set (map task_id b)) (sync_queue s)"
    and i1: "map id_task (tasks s1) = map id_task (tasks s)"
    and t1: "\<forall>X. tasks_synced s X \<longrightarrow> tasks_synced s1 (X \<union> set (map task_id b))"
    using accepted_try_batch [OF assms, of b sy fa er s] by blast
  obtain s' where
    sb: "sync_batches e bs (sy + length b, fa, er) s1 =
           (Inr (sy + length b + length (concat bs), fa, er), s')"
    and q2: "sync_queue s' =
               filter (\<lambda>q. task_id q \<notin> set (map task_id (concat bs))) (sync_queue s1)"
    and i2: "map id_task (tasks s') = map id_task (tasks s1)"
    and t2: "\<forall>X. tasks_synced s1 X \<longrightarrow> tasks_synced s' (X \<union> set (map task_id (concat bs)))"
    using Cons.IH [of "sy + length b" s1] by blast
  have step: "sync_batches e (b # bs) (sy, fa, er) s =
                (Inr (sy + length (concat (b # bs)), fa, er), s')"
    by (simp add: tb sb add.assoc)
  have q: "sync_queue s' =
             filter (\<lambda>q. task_id q \<notin> set (map task_id (concat (b # bs)))) (sync_queue s)"
    unfolding q2 q1 by (auto intro: filter_cong)
  have ts: "tasks_synced s' (X \<union> set (map task_id (concat (b # bs))))"
    if "tasks_synced s X" for X
  proof -
    have "tasks_synced s' ((X \<union> set (map task_id b)) \<union> set (map task_id (concat bs)))"
      using t1 t2 that by blast
    then show ?thesis by (simp add: Un_assoc)
  qed
  show ?case
    using step q i1 i2 ts by (intro exI [of _ s']) simp
qed

lemma task_id_queued_create: "task_id (queued_create e req) = fst (snd req)"
  by (cases req) (simp add: queued_create_def)

lemma id_task_stored_task: "id_task (stored_task e req) = fst (snd req)"
  by (cases req) (simp add: stored_task_def new_task_def)

lemma retry_count_queued_create: "retry_count (queued_create e req) = 0"
  by (cases req) (simp add: queued_create_def)

text \<open>
  C4, as the code has it. With a working storage, \<open>updateSyncStatus\<close> with
  \<open>'synced'\<close> (what \<open>sync\<close> calls for a success result) marks the rows of the task
  synced and removes from the queue every item of that task, whichever item was
  confirmed; the items of other tasks stay as they are. And creating tasks into an
  empty queue enqueues one item per task, after which a run of \<open>sync\<close> against a
  peer that accepts everything (batch size and retry limit positive) reports every
  item synced, leaves the queue empty and every created task synced.
\<close>

theorem success_removes_items_of_task:
  assumes "storage_ok e"
  shows "updateSyncStatus e taskId Synced serverData s =
           (Inr (),
            s\<lparr>tasks := map (\<lambda>t. if id_task t = taskId
                 then t\<lparr>sync_status := Synced,
                        server_id := (case serverData of Some d \<Rightarrow> server_id_opt d | None \<Rightarrow> None),
                        last_synced_at := Some (now e)\<rparr>
                 else t) (tasks s),
              sync_queue := filter (\<lambda>q. task_id q \<noteq> taskId) (sync_queue s)\<rparr>) \<and>
         (SYNC_BATCH_SIZE e = Some B \<and> 0 < B \<and> SYNC_RETRY_ATTEMPTS e = Some L \<and> 0 < L \<and>
          accepting e \<and> sync_queue s0 = [] \<longrightarrow>
           (\<exists>ts s1 s2. createTasks e reqs s0 = (Inr ts, s1) \<and>
               map id_task ts = map (\<lambda>req. fst (snd req)) reqs \<and>
               length (sync_queue s1) = length reqs \<and>
               sync e s1 =
                 Some (Inr \<lparr>success = True, synced_items = length reqs, failed_items = 0,
                            errors = []\<rparr>, s2) \<and>
               sync_queue s2 = [] \<and>
               set (map id_task ts) \<subseteq> set (map id_task (tasks s2)) \<and>
               (\<forall>row\<in>set (tasks s2). id_task row \<in> set (map id_task ts) \<longrightarrow>
                  sync_status row = Synced)))"
proof (intro conjI impI)
  show "updateSyncStatus e taskId Synced serverData s =
           (Inr (),
            s\<lparr>tasks := map (\<lambda>t. if id_task t = taskId
                 then t\<lparr>sync_status := Synced,
                        server_id := (case serverData of Some d \<Rightarrow> server_id_opt d | None \<Rightarrow> None),
                        last_synced_at := Some (now e)\<rparr>
                 else t) (tasks s),
              sync_queue := filter (\<lambda>q. task_id q \<noteq> taskId) (sync_queue s)\<rparr>)"
    by (rule updateSyncStatus_synced_effect [OF assms])
next
  assume h: "SYNC_BATCH_SIZE e = Some B \<and> 0 < B \<and> SYNC_RETRY_ATTEMPTS e = Some L \<and> 0 < L \<and>
          accepting e \<and> sync_queue s0 = []"
  then have b: "SYNC_BATCH_SIZE e = Some B" and pos: "0 < B"
    and l: "SYNC_RETRY_ATTEMPTS e = Some L" and lpos: "0 < L"
    and acc: "accepting e" and empty: "sync_queue s0 = []"
    by simp_all
  define ts where "ts = map (\<lambda>(taskData, i, qid). new_task e taskData i) reqs"
  define s1 where "s1 = s0\<lparr>tasks := tasks s0 @ map (stored_task e) reqs,
                            sync_queue := sync_queue s0 @ map (queued_create e) reqs\<rparr>"
  define ids where "ids = map (\<lambda>req. fst (snd req)) reqs"
  have ct: "createTasks e reqs s0 = (Inr ts, s1)"
    unfolding ts_def s1_def by (rule createTasks_effect [OF assms])
  have tids: "map id_task ts = ids"
    unfolding ts_def ids_def by (auto simp: new_task_def)
  have q1: "sync_queue s1 = map (queued_create e) reqs"
    unfolding s1_def using empty by simp
  have len1: "length (sync_queue s1) = length reqs"
    unfolding q1 by simp
  define its where "its = sort_key (\<lambda>q. getTime (created_at_item q)) (sync_queue s1)"
  have alldue: "filter (\<lambda>q. below_limit (retry_count q) (Some L)) (sync_queue s1) = sync_queue s1"
    unfolding q1 using lpos by (simp add: retry_count_queued_create)
  have due: "db_all_due e (SYNC_RETRY_ATTEMPTS e) s1 = Inr its"
    unfolding its_def l storage_ok_db_all_due [OF assms] alldue by (rule refl)
  have sits: "set its = set (sync_queue s1)" and lits: "length its = length reqs"
    unfolding its_def by (simp_all add: len1)
  have "map task_id (sync_queue s1) = ids"
    unfolding q1 ids_def by (simp add: task_id_queued_create comp_def)
  then have "task_id ` set (sync_queue s1) = set ids"
    by (metis list.set_map)
  then have qids: "set (map task_id its) = set ids"
    using sits by simp
  have "map id_task (map (stored_task e) reqs) = ids"
    unfolding ids_def by (simp add: id_task_stored_task comp_def)
  then have tasks1: "set ids \<subseteq> set (map id_task (tasks s1))"
    unfolding s1_def by simp
  let ?res = "\<lparr>success = True, synced_items = length reqs, failed_items = 0, errors = []\<rparr>"
  have "\<exists>s2. sync e s1 = Some (Inr ?res, s2) \<and> sync_queue s2 = [] \<and>
               map id_task (tasks s2) = map id_task (tasks s1) \<and>
               tasks_synced s2 (set ids)"
  proof (cases "its = []")
    case True
    then have nil: "reqs = []" using lits by simp
    have "sync e s1 = Some (Inr ?res, s1)"
      using due True nil by (simp add: sync_def)
    moreover have "sync_queue s1 = []" using q1 nil by simp
    moreover have "tasks_synced s1 (set ids)" by (simp add: ids_def nil tasks_synced_def)
    ultimately show ?thesis by blast
  next
    case False
    define bs where "bs = batches_from (nat B) 0 its"
    have npos: "0 < nat B" using pos by simp
    have mk: "make_batches (SYNC_BATCH_SIZE e) its = Some bs"
      using b pos by (simp add: make_batches_def bs_def)
    have cc: "concat bs = its"
      using concat_batches_from [OF npos, of 0 its] by (simp add: bs_def)
    obtain s2 where
      sb: "sync_batches e bs (0, 0, []) s1 = (Inr (0 + length (concat bs), 0, []), s2)"
      and q2: "sync_queue s2 =
                 filter (\<lambda>q. task_id q \<notin> set (map task_id (concat bs))) (sync_queue s1)"
      and i2: "map id_task (tasks s2) = map id_task (tasks s1)"
      and t2: "\<forall>X. tasks_synced s1 X \<longrightarrow> tasks_synced s2 (X \<union> set (map task_id (concat bs)))"
      using accepted_batches [OF assms acc, of bs 0 0 "[]" s1] by blast
    have run: "sync e s1 = Some (Inr ?res, s2)"
      using due False mk sb by (simp add: sync_def cc lits)
    have "\<forall>q\<in>set (sync_queue s1). task_id q \<in> set (map task_id its)"
      using sits by auto
    then have qe: "sync_queue s2 = []"
      unfolding q2 cc by (simp add: filter_empty_conv)
    have "tasks_synced s1 {}" by (simp add: tasks_synced_def)
    then have "tasks_synced s2 ({} \<union> set (map task_id (concat bs)))"
      using t2 by blast
    then have "tasks_synced s2 (set ids)"
      unfolding cc qids by simp
    then show ?thesis
      using run qe i2 by blast
  qed
  then obtain s2 where run: "sync e s1 = Some (Inr ?res, s2)" and qe: "sync_queue s2 = []"
    and i2: "map id_task (tasks s2) = map id_task (tasks s1)"
    and syn: "tasks_synced s2 (set ids)"
    by blast
  have sub: "set (map id_task ts) \<subseteq> set (map id_task (tasks s2))"
    unfolding tids i2 by (rule tasks1)
  have all: "\<forall>row\<in>set (tasks s2). id_task row \<in> set (map id_task ts) \<longrightarrow> sync_status row = Synced"
    using syn unfolding tids tasks_synced_def .
  show "\<exists>ts s1 s2. createTasks e reqs s0 = (Inr ts, s1) \<and>
               map id_task ts = map (\<lambda>req. fst (snd req)) reqs \<and>
               length (sync_queue s1) = length reqs \<and>
               sync e s1 =
                 Some (Inr \<lparr>success = True, synced_items = length reqs, failed_items = 0,
                            errors = []\<rparr>, s2) \<and>
               sync_queue s2 = [] \<and>
               set (map id_task ts) \<subseteq> set (map id_task (tasks s2)) \<and>
               (\<forall>row\<in>set (tasks s2). id_task row \<in> set (map id_task ts) \<longrightarrow>
                  sync_status row = Synced)"
    using ct tids [unfolded ids_def] len1 run qe sub all
    by (intro exI [of _ ts] exI [of _ s1] exI [of _ s2]) simp
qed

text \<open>
  C4 as stated fails: \<open>t1\<close> has two pending items, \<open>q1\<close> and \<open>q4\<close>; recording
  the success of \<open>t1\<close> removes both, and only the item of \<open>t2\<close> is left.
\<close>

theorem success_removes_other_items_of_task:
  "sync_queue ex_state_two = [ex_item, ex_item2, ex_item_later] \<and>
   id_item ex_item_later \<noteq> id_item ex_item \<and> task_id ex_item_later = task_id ex_item \<and>
   sync_queue (snd (updateSyncStatus ex_env (task_id ex_item) Synced None ex_state_two))
     = [ex_item2]"
  by (simp add: updateSyncStatus_def db_run_def ex_state_two_def ex_item_later_def ex_item_def
      ex_item2_def ex_env_def)

lemma accepting_ex_env: "accepting ex_env_accepting"
  by (simp add: accepting_def ex_env_accepting_def ex_env_def accepted_def comp_def
      payload_def)

theorem success_removes_items_of_task_witness:
  "updateSyncStatus ex_env_accepting ''t1'' Synced None ex_state_two =
     (Inr (),
      ex_state_two\<lparr>tasks := [ex_local\<lparr>sync_status := Synced, last_synced_at := Some (Date 300)\<rparr>,
                              ex_task2],
                   sync_queue := [ex_item2]\<rparr>) \<and>
   (\<exists>ts s1 s2. createTasks ex_env_accepting ex_requests ex_state_empty = (Inr ts, s1) \<and>
      map id_task ts = [''t1'', ''t2'', ''t3''] \<and> length (sync_queue s1) = 3 \<and>
      sync ex_env_accepting s1 =
        Some (Inr \<lparr>success = True, synced_items = 3, failed_items = 0, errors = []\<rparr>, s2) \<and>
      sync_queue s2 = [])"
proof -
  have ok: "storage_ok ex_env_accepting"
    by (simp add: storage_ok_def ex_env_accepting_def ex_env_def)
  have bs: "SYNC_BATCH_SIZE ex_env_accepting = Some 2"
    and rl: "SYNC_RETRY_ATTEMPTS ex_env_accepting = Some 2"
    by (simp_all add: ex_env_accepting_def ex_env_def)
  have em: "sync_queue ex_state_empty = []"
    by (simp add: ex_state_empty_def)
  have hyp: "SYNC_BATCH_SIZE ex_env_accepting = Some 2 \<and> (0::int) < 2 \<and>
             SYNC_RETRY_ATTEMPTS ex_env_accepting = Some 2 \<and> (0::int) < 2 \<and>
             accepting ex_env_accepting \<and> sync_queue ex_state_empty = []"
    using bs rl em accepting_ex_env by simp
  note a = success_removes_items_of_task [OF ok, where taskId = "''t1''" and serverData = None and s = ex_state_two,
               THEN conjunct1]
  note b = success_removes_items_of_task [OF ok, where reqs = ex_requests and ?s0.0 = ex_state_empty,
               THEN conjunct2, rule_format, OF hyp]
  from b obtain ts s1 s2 where
    H: "createTasks ex_env_accepting ex_requests ex_state_empty = (Inr ts, s1) \<and>
        map id_task ts = map (\<lambda>req. fst (snd req)) ex_requests \<and>
        length (sync_queue s1) = length ex_requests \<and>
        sync ex_env_accepting s1 =
          Some (Inr \<lparr>success = True, synced_items = length ex_requests, failed_items = 0,
                     errors = []\<rparr>, s2) \<and>
        sync_queue s2 = [] \<and>
        set (map id_task ts) \<subseteq> set (map id_task (tasks s2)) \<and>
        (\<forall>row\<in>set (tasks s2). id_task row \<in> set (map id_task ts) \<longrightarrow>
           sync_status row = Synced)"
    by (elim exE) (rule that)
  have second: "\<exists>ts s1 s2. createTasks ex_env_accepting ex_requests ex_state_empty = (Inr ts, s1) \<and>
      map id_task ts = [''t1'', ''t2'', ''t3''] \<and> length (sync_queue s1) = 3 \<and>
      sync ex_env_accepting s1 =
        Some (Inr \<lparr>success = True, synced_items = 3, failed_items = 0, errors = []\<rparr>, s2) \<and>
      sync_queue s2 = []"
    using H by (intro exI [of _ ts] exI [of _ s1] exI [of _ s2]) (simp add: ex_requests_def)
  have first: "updateSyncStatus ex_env_accepting ''t1'' Synced None ex_state_two =
     (Inr (),
      ex_state_two\<lparr>tasks := [ex_local\<lparr>sync_status := Synced, last_synced_at := Some (Date 300)\<rparr>,
                              ex_task2],
                   sync_queue := [ex_item2]\<rparr>)"
    unfolding a
    by (simp add: ex_state_two_def ex_env_accepting_def ex_env_def ex_local_def ex_task2_def
        ex_item_def ex_item2_def ex_item_later_def)
  show ?thesis
    using first second by (rule conjI)
qed

end
